theory Spec2Isabelle
  imports Main
begin

section \<open>The profiler plugin of src/index.js\<close>

text \<open>
  The plugin is one JavaScript class, \<open>ProfilerPlugin\<close>, with three lifecycle hooks.
  Its hooks call four collaborators the file imports: the inspector session, the zip
  archive writer, the HTTP helper \<open>request\<close> and the pass-through stream. The model keeps
  the code of the hooks and of every callback they register, and makes each call into a
  collaborator explicit:
  \<^item> what the program does to a collaborator is recorded in the state (commands posted,
    entries appended, requests issued, chunks written);
  \<^item> what a collaborator does to the program is an input: the outcome of a call that can
    raise is a parameter of the hook, and every callback or listener invocation is an
    \<open>event\<close> handed to \<open>step\<close>, a listener's argument being the value it is called
    with, whatever its shape;
  \<^item> which events the session and the archive can produce in a state is said by
    \<open>can_emit\<close>, apart from the handlers.
  An error value is the text that \<open>${err}\<close> would print.
\<close>

type_synonym err = string

subsection \<open>Values serialised with JSON.stringify\<close>

text \<open>
  The objects the program serialises (the signing request body, the CPU profile) are
  trees of objects, arrays, strings, integers, booleans and null. A property whose value
  is \<open>undefined\<close> is left out by \<open>JSON.stringify\<close>; an object is the list of the
  properties that are present, in order.
\<close>

datatype json =
    JNull
  | JBool bool
  | JNum int
  | JStr string
  | JArr "json list"
  | JObj "(string \<times> json) list"

definition digit_char :: "nat \<Rightarrow> char" where
  "digit_char d = char_of (48 + d)"

fun show_nat :: "nat \<Rightarrow> string" where
  "show_nat n = (if n < 10 then [digit_char n] else show_nat (n div 10) @ [digit_char (n mod 10)])"

declare show_nat.simps [simp del]

definition show_int :: "int \<Rightarrow> string" where
  "show_int i = (if i < 0 then CHR ''-'' # show_nat (nat (- i)) else show_nat (nat i))"

definition hex_char :: "nat \<Rightarrow> char" where
  "hex_char d = (if d < 10 then char_of (48 + d) else char_of (87 + d))"

text \<open>The escapes of \<open>JSON.stringify\<close> for a string of 8-bit characters.\<close>

definition escape_char :: "char \<Rightarrow> string" where
  "escape_char c =
     (if c = CHR 0x22 then [CHR 0x5C, CHR 0x22]
      else if c = CHR 0x5C then [CHR 0x5C, CHR 0x5C]
      else if c = CHR 0x08 then [CHR 0x5C, CHR ''b'']
      else if c = CHR 0x0C then [CHR 0x5C, CHR ''f'']
      else if c = CHR 0x0A then [CHR 0x5C, CHR ''n'']
      else if c = CHR 0x0D then [CHR 0x5C, CHR ''r'']
      else if c = CHR 0x09 then [CHR 0x5C, CHR ''t'']
      else if (of_char c :: nat) < 32
        then [CHR 0x5C, CHR ''u'', CHR ''0'', CHR ''0'',
              hex_char (of_char c div 16), hex_char (of_char c mod 16)]
      else [c])"

definition quote :: "string \<Rightarrow> string" where
  "quote s = CHR 0x22 # concat (map escape_char s) @ [CHR 0x22]"

fun commas :: "string list \<Rightarrow> string" where
  "commas [] = []"
| "commas [x] = x"
| "commas (x # y # ys) = x @ CHR '','' # commas (y # ys)"

fun JSON_stringify :: "json \<Rightarrow> string" where
  "JSON_stringify JNull = ''null''"
| "JSON_stringify (JBool b) = (if b then ''true'' else ''false'')"
| "JSON_stringify (JNum i) = show_int i"
| "JSON_stringify (JStr s) = quote s"
| "JSON_stringify (JArr xs) = CHR ''['' # commas (map JSON_stringify xs) @ '']''"
| "JSON_stringify (JObj kvs) =
     CHR ''{'' # commas (map (\<lambda>kv. quote (fst kv) @ CHR '':'' # JSON_stringify (snd kv)) kvs) @ ''}''"

text \<open>
  \<open>JSON.parse\<close> on the texts that \<open>JSON.stringify\<close> writes: no white space,
  integers, strings of 8-bit characters with the escapes above. The reader of values
  counts down a bound on the nesting it may still descend; the length of the text is
  always enough.
\<close>

definition is_digit :: "char \<Rightarrow> bool" where
  "is_digit c \<longleftrightarrow> 48 \<le> (of_char c :: nat) \<and> (of_char c :: nat) \<le> 57"

definition digit_val :: "char \<Rightarrow> nat" where
  "digit_val c = of_char c - 48"

definition read_nat :: "string \<Rightarrow> nat" where
  "read_nat ds = foldl (\<lambda>a c. 10 * a + digit_val c) 0 ds"

definition hex_val :: "char \<Rightarrow> nat option" where
  "hex_val c =
     (let n = of_char c :: nat
      in if 48 \<le> n \<and> n \<le> 57 then Some (n - 48)
         else if 97 \<le> n \<and> n \<le> 102 then Some (n - 87)
         else if 65 \<le> n \<and> n \<le> 70 then Some (n - 55)
         else None)"

definition unescape :: "char \<Rightarrow> char option" where
  "unescape e =
     (if e = CHR 0x22 then Some (CHR 0x22)
      else if e = CHR 0x5C then Some (CHR 0x5C)
      else if e = CHR ''/'' then Some (CHR ''/'')
      else if e = CHR ''b'' then Some (CHR 0x08)
      else if e = CHR ''f'' then Some (CHR 0x0C)
      else if e = CHR ''n'' then Some (CHR 0x0A)
      else if e = CHR ''r'' then Some (CHR 0x0D)
      else if e = CHR ''t'' then Some (CHR 0x09)
      else None)"

definition consed :: "'a \<Rightarrow> ('a list \<times> string) option \<Rightarrow> ('a list \<times> string) option" where
  "consed x res = map_option (\<lambda>p. (x # fst p, snd p)) res"

fun read_chars :: "string \<Rightarrow> (string \<times> string) option" where
  "read_chars [] = None"
| "read_chars (c # cs) =
     (if c = CHR 0x22 then Some ([], cs)
      else if c = CHR 0x5C then
        (case cs of
           [] \<Rightarrow> None
         | e # cs1 \<Rightarrow>
             if e = CHR ''u'' then
               (case cs1 of
                  a # b # h # l # cs2 \<Rightarrow>
                    (if a = CHR ''0'' \<and> b = CHR ''0'' then
                       (case (hex_val h, hex_val l) of
                          (Some x, Some y) \<Rightarrow> consed (char_of (16 * x + y)) (read_chars cs2)
                        | _ \<Rightarrow> None)
                     else None)
                | _ \<Rightarrow> None)
             else (case unescape e of
                     None \<Rightarrow> None
                   | Some ch \<Rightarrow> consed ch (read_chars cs1)))
      else if (of_char c :: nat) < 32 then None
      else consed c (read_chars cs))"

fun read_value :: "nat \<Rightarrow> string \<Rightarrow> (json \<times> string) option"
  and read_elems :: "nat \<Rightarrow> string \<Rightarrow> (json list \<times> string) option"
  and read_members :: "nat \<Rightarrow> string \<Rightarrow> ((string \<times> json) list \<times> string) option" where
  "read_value 0 s = None"
| "read_value (Suc f) [] = None"
| "read_value (Suc f) (c # cs) =
     (if is_digit c then
        Some (JNum (int (read_nat (takeWhile is_digit (c # cs)))), dropWhile is_digit (c # cs))
      else if c = CHR ''-'' then
        (if takeWhile is_digit cs = [] then None
         else Some (JNum (- int (read_nat (takeWhile is_digit cs))), dropWhile is_digit cs))
      else if c = CHR 0x22 then map_option (\<lambda>p. (JStr (fst p), snd p)) (read_chars cs)
      else if c = CHR ''['' then
        (if take 1 cs = '']'' then Some (JArr [], drop 1 cs)
         else map_option (\<lambda>p. (JArr (fst p), snd p)) (read_elems f cs))
      else if c = CHR ''{'' then
        (if take 1 cs = ''}'' then Some (JObj [], drop 1 cs)
         else map_option (\<lambda>p. (JObj (fst p), snd p)) (read_members f cs))
      else if take 4 (c # cs) = ''null'' then Some (JNull, drop 3 cs)
      else if take 4 (c # cs) = ''true'' then Some (JBool True, drop 3 cs)
      else if take 5 (c # cs) = ''false'' then Some (JBool False, drop 4 cs)
      else None)"
| "read_elems 0 s = None"
| "read_elems (Suc f) s =
     (case read_value f s of
        None \<Rightarrow> None
      | Some (v, r) \<Rightarrow>
          (case r of
             [] \<Rightarrow> None
           | c # r1 \<Rightarrow>
               if c = CHR '','' then consed v (read_elems f r1)
               else if c = CHR '']'' then Some ([v], r1)
               else None))"
| "read_members 0 s = None"
| "read_members (Suc f) [] = None"
| "read_members (Suc f) (q # cs) =
     (if q \<noteq> CHR 0x22 then None
      else
        (case read_chars cs of
           None \<Rightarrow> None
         | Some (k, r) \<Rightarrow>
             (case r of
                [] \<Rightarrow> None
              | d # r0 \<Rightarrow>
                  if d \<noteq> CHR '':'' then None
                  else
                    (case read_value f r0 of
                       None \<Rightarrow> None
                     | Some (v, r1) \<Rightarrow>
                         (case r1 of
                            [] \<Rightarrow> None
                          | e # r2 \<Rightarrow>
                              if e = CHR '','' then consed (k, v) (read_members f r2)
                              else if e = CHR ''}'' then Some ([(k, v)], r2)
                              else None)))))"

definition JSON_parse :: "string \<Rightarrow> json option" where
  "JSON_parse s =
     (case read_value (Suc (length s)) s of
        Some (j, []) \<Rightarrow> Some j
      | _ \<Rightarrow> None)"

text \<open>
  A value is read back when, with enough of the bound and followed by any text that does
  not go on with a digit, the reader returns the value and that text.
\<close>

definition ok_rest :: "string \<Rightarrow> bool" where
  "ok_rest rest \<longleftrightarrow> rest = [] \<or> \<not> is_digit (hd rest)"

definition reads :: "json \<Rightarrow> bool" where
  "reads j \<longleftrightarrow>
     (\<forall>f rest. length (JSON_stringify j) \<le> f \<longrightarrow> ok_rest rest \<longrightarrow>
        read_value f (JSON_stringify j @ rest) = Some (j, rest))"

subsection \<open>Data of the plugin\<close>

text \<open>
  \<open>defaultConfig\<close> and the options a caller passes; \<open>Object.assign\<close> lets every option
  that is present override the default.
\<close>

record config =
  cfg_recSamples :: bool
  cfg_sampleRate :: int
  cfg_enabled :: bool
  cfg_heapSnapshot :: bool
  cfg_debug :: bool

record pluginOpts =
  opt_recSamples :: "bool option"
  opt_sampleRate :: "int option"
  opt_enabled :: "bool option"
  opt_heapSnapshot :: "bool option"
  opt_debug :: "bool option"

definition defaultConfig :: config where
  "defaultConfig =
     \<lparr>cfg_recSamples = True, cfg_sampleRate = 1000, cfg_enabled = False,
      cfg_heapSnapshot = False, cfg_debug = False\<rparr>"

definition assign :: "config \<Rightarrow> pluginOpts \<Rightarrow> config" where
  "assign d o' =
     \<lparr>cfg_recSamples = (case opt_recSamples o' of Some v \<Rightarrow> v | None \<Rightarrow> cfg_recSamples d),
      cfg_sampleRate = (case opt_sampleRate o' of Some v \<Rightarrow> v | None \<Rightarrow> cfg_sampleRate d),
      cfg_enabled = (case opt_enabled o' of Some v \<Rightarrow> v | None \<Rightarrow> cfg_enabled d),
      cfg_heapSnapshot = (case opt_heapSnapshot o' of Some v \<Rightarrow> v | None \<Rightarrow> cfg_heapSnapshot d),
      cfg_debug = (case opt_debug o' of Some v \<Rightarrow> v | None \<Rightarrow> cfg_debug d)\<rparr>"

text \<open>
  Modelled from the spec: the helper \<open>enabled(envVarName, configDefault)\<close> of
  \<open>./enabled\<close> is not among the sources. The spec's flag resolver "reads an environment
  override; if present and parseable as boolean-ish, it wins; otherwise falls back to
  configDefault". The override is \<open>Some b\<close> when present and parseable.
\<close>

definition enabled_flag :: "bool option \<Rightarrow> bool \<Rightarrow> bool" where
  "enabled_flag override configDefault = (case override of Some b \<Rightarrow> b | None \<Rightarrow> configDefault)"

text \<open>
  The invocation instance the host passes to the constructor: the fields the plugin
  reads. \<open>None\<close> is a field that is \<open>undefined\<close>.
\<close>

record invocation =
  clientId :: "string option"
  invokedFunctionArn :: "string option"
  awsRequestId :: "string option"
  startTimestamp :: "int option"

datatype command =
    HeapProfiler_enable
  | Profiler_enable
  | Profiler_setSamplingInterval int
  | Profiler_start
  | Profiler_stop
  | HeapProfiler_takeHeapSnapshot

datatype verb = POST | PUT

text \<open>A call \<open>request(body, method, target, token)\<close> of the HTTP helper.\<close>

record request =
  req_body :: string
  req_verb :: verb
  req_target :: string
  req_token :: "string option"

text \<open>
  What \<open>archive.append\<close> is given: a string, or the pass-through stream \<open>heap\<close> (by
  reference: the stream's contents are those of the field \<open>heap\<close> of the state).
  The archive object is what the program has done to it (the entries appended, the calls
  of \<open>finalize\<close>) and what it has emitted so far: the number of \<open>entry\<close> events
  (\<open>reported\<close>) and whether \<open>finish\<close> has been emitted.
\<close>

datatype source = Text string | HeapStream

record archive =
  entries :: "(string \<times> source) list"
  finalizeCalls :: nat
  reported :: nat
  finish_emitted :: bool

record passthrough =
  written :: "string list"
  ended :: bool

datatype settled = VFalse | VUndefined

datatype promise = Pending | Resolved settled | Rejected err

text \<open>
  The state: the fields of the plugin instance, the inspector session as the plugin has
  driven it, the console and the HTTP helper's call log, and the variables of the closure
  that one call of \<open>postInvoke\<close> creates. \<open>pending\<close> holds the posted commands whose
  callback has not run yet. \<open>escaped\<close> collects the errors that leave a callback or an
  \<open>async\<close> handler without being caught by the program. \<open>hostname\<close> is what
  \<open>getSignerHostname()\<close> of \<open>./signer\<close> returns.
  One call of \<open>postInvoke\<close> is modelled at a time: listeners that an earlier call left
  on the session are not part of the state.
\<close>

record plugin =
  invocationInstance :: "invocation option"
  token :: "string option"
  config :: config
  profilerEnabled :: bool
  heapsnapshotEnabled :: bool
  enabled :: bool
  uploads :: "string list"
  hostname :: string
  connected :: bool
  posted :: "command list"
  pending :: "command list"
  console :: "string list"
  requests :: "request list"
  promise :: promise
  filesSeen :: nat
  filesCount :: nat
  signedRequestURL :: string
  the_archive :: "archive option"
  archiveBuffer :: "string list"
  heap :: "passthrough option"
  awaitingPut :: nat
  escaped :: "err list"

text \<open>The constructor (lines 23 to 48), given the two environment overrides.\<close>

definition ProfilerPlugin ::
  "pluginOpts \<Rightarrow> invocation option \<Rightarrow> bool option \<Rightarrow> bool option \<Rightarrow> string \<Rightarrow> plugin" where
  "ProfilerPlugin pluginConfig inst envProfiler envHeap host =
     (let cfg = assign defaultConfig pluginConfig;
          p = enabled_flag envProfiler (cfg_enabled cfg);
          h = enabled_flag envHeap (cfg_heapSnapshot cfg)
      in \<lparr>invocationInstance = inst,
          token = (case inst of None \<Rightarrow> None | Some i \<Rightarrow> clientId i),
          config = cfg,
          profilerEnabled = p,
          heapsnapshotEnabled = h,
          enabled = (p \<or> h),
          uploads = [],
          hostname = host,
          connected = False,
          posted = [],
          pending = [],
          console = [],
          requests = [],
          promise = Pending,
          filesSeen = 0,
          filesCount = 0,
          signedRequestURL = [],
          the_archive = None,
          archiveBuffer = [],
          heap = None,
          awaitingPut = 0,
          escaped = []\<rparr>)"

subsection \<open>Helpers of the hooks\<close>

definition log :: "string \<Rightarrow> plugin \<Rightarrow> plugin" where
  "log logline s =
     (if cfg_debug (config s) then s\<lparr>console := console s @ [''@iopipe/profiler::'' @ logline]\<rparr>
      else s)"

text \<open>\<open>resolve()\<close> of the promise that \<open>postInvoke\<close> returns; a settled promise stays as it is.\<close>

definition resolve :: "plugin \<Rightarrow> plugin" where
  "resolve s = (if promise s = Pending then s\<lparr>promise := Resolved VUndefined\<rparr> else s)"

text \<open>
  \<open>this.inspector.post(command, callback)\<close>. Whether the session raises instead of
  accepting the command is the session's business: \<open>throws\<close> gives, for each command,
  the error it raises, if any.
\<close>

definition inspector_post :: "(command \<Rightarrow> err option) \<Rightarrow> command \<Rightarrow> plugin \<Rightarrow> err + plugin" where
  "inspector_post throws c s =
     (case throws c of
        Some e \<Rightarrow> Inl e
      | None \<Rightarrow> Inr (s\<lparr>posted := posted s @ [c], pending := pending s @ [c]\<rparr>))"

definition archive_append :: "string \<Rightarrow> source \<Rightarrow> plugin \<Rightarrow> plugin" where
  "archive_append name src s =
     s\<lparr>the_archive := map_option (\<lambda>a. a\<lparr>entries := entries a @ [(name, src)]\<rparr>) (the_archive s)\<rparr>"

definition archive_finalize :: "plugin \<Rightarrow> plugin" where
  "archive_finalize s =
     s\<lparr>the_archive := map_option (\<lambda>a. a\<lparr>finalizeCalls := Suc (finalizeCalls a)\<rparr>) (the_archive s)\<rparr>"

subsection \<open>preInvoke and postReport\<close>

text \<open>
  \<open>this.inspector.disconnect()\<close>, on the \<open>inspector.Session\<close> that the constructor
  creates (line 43): the session closes its connection when it has one and returns at
  once when it has none. It has no path that raises, so the result is never \<open>Inl\<close>;
  the callbacks of the commands still pending stay to be called (with an error).
\<close>

definition inspector_disconnect :: "plugin \<Rightarrow> err + plugin" where
  "inspector_disconnect s = Inr (if connected s then s\<lparr>connected := False\<rparr> else s)"

text \<open>
  \<open>preInvoke\<close> (lines 64 to 109). \<open>conn\<close> is the error that
  \<open>inspector.connect()\<close> raises, if any. \<open>disconnect\<close> and \<open>connect\<close> each sit in
  a \<open>try\<close> whose \<open>catch\<close> logs a warning. The two \<open>post\<close> calls are not in a
  \<open>try\<close>: what they raise leaves the hook (\<open>Inl\<close>).
\<close>

definition preInvoke ::
  "err option \<Rightarrow> (command \<Rightarrow> err option) \<Rightarrow> plugin \<Rightarrow> err + plugin" where
  "preInvoke conn throws s =
     (if \<not> enabled s then Inr s
      else
        let s1 = (case inspector_disconnect s of
                    Inl e \<Rightarrow> log (''warning disconnecting to inspector: '' @ e) s
                  | Inr s' \<Rightarrow> s');
            s2 = (case conn of
                    Some e \<Rightarrow> log (''warning connecting to inspector: '' @ e) s1
                  | None \<Rightarrow> s1\<lparr>connected := True\<rparr>)
        in (case (if heapsnapshotEnabled s2 then inspector_post throws HeapProfiler_enable s2
                  else Inr s2) of
              Inl e \<Rightarrow> Inl e
            | Inr s3 \<Rightarrow>
                (if profilerEnabled s3 then inspector_post throws Profiler_enable s3 else Inr s3)))"

text \<open>
  \<open>postReport\<close> (lines 225 to 227) is the single statement
  \<open>this.inspector.disconnect()\<close>, with no \<open>try\<close> around it: the hook raises what
  \<open>disconnect\<close> raises.
\<close>

definition postReport :: "plugin \<Rightarrow> err + plugin" where
  "postReport s = inspector_disconnect s"

subsection \<open>getSignedUrl and postInvoke\<close>

text \<open>
  The signing round trip as \<open>getSignedUrl\<close> sees it: \<open>await request(...)\<close> rejects,
  or \<open>JSON.parse\<close> raises on the body, or the body parses to a response object.
\<close>

record response =
  signedRequest :: string
  jwtAccess :: string

datatype signing = RequestFailed err | MalformedJSON err | Response response

definition signing_body :: "invocation \<Rightarrow> json" where
  "signing_body i =
     JObj (List.map_filter (\<lambda>x. x)
       [map_option (\<lambda>a. (''arn'', JStr a)) (invokedFunctionArn i),
        map_option (\<lambda>r. (''requestId'', JStr r)) (awsRequestId i),
        map_option (\<lambda>t. (''timestamp'', JNum t)) (startTimestamp i),
        Some (''extension'', JStr ''.zip'')])"

text \<open>
  \<open>getSignedUrl\<close> (lines 111 to 135) returns the state it leaves and either the error
  it rejects with or the signed URL. Destructuring an \<open>undefined\<close> invocation instance
  raises before anything else is done.
\<close>

definition getSignedUrl :: "signing \<Rightarrow> plugin \<Rightarrow> (err + string) \<times> plugin" where
  "getSignedUrl sg s =
     (case invocationInstance s of
        None \<Rightarrow> (Inl ''TypeError'', s)
      | Some obj \<Rightarrow>
          let s1 = log (''Requesting signed url from '' @ hostname s) s;
              s2 = s1\<lparr>requests := requests s1 @
                     [\<lparr>req_body = JSON_stringify (signing_body obj), req_verb = POST,
                       req_target = hostname s @ ''/'', req_token = token s\<rparr>]\<rparr>
          in (case sg of
                RequestFailed e \<Rightarrow> (Inl e, s2)
              | MalformedJSON e \<Rightarrow> (Inl e, s2)
              | Response r \<Rightarrow> (Inr (signedRequest r), s2\<lparr>uploads := uploads s2 @ [jwtAccess r]\<rparr>)))"

text \<open>The \<open>catch\<close> of \<open>postInvoke\<close> (lines 218 to 221).\<close>

definition postInvoke_catch :: "err \<Rightarrow> plugin \<Rightarrow> plugin" where
  "postInvoke_catch e s = resolve (log (''Error in upload: '' @ e) s)"

text \<open>Lines 179 to 186: the CPU profile is requested; \<open>Some e\<close> is an error raised.\<close>

definition postInvoke_cpu :: "(command \<Rightarrow> err option) \<Rightarrow> plugin \<Rightarrow> err option \<times> plugin" where
  "postInvoke_cpu throws s =
     (if profilerEnabled s then
        (case inspector_post throws Profiler_stop s of
           Inl e \<Rightarrow> (Some e, s)
         | Inr s' \<Rightarrow> (None, s'))
      else (None, s))"

text \<open>
  Lines 187 to 217: the stream \<open>heap\<close> is created, the two listeners are put on the
  session, and the snapshot is requested.
\<close>

definition postInvoke_heap :: "(command \<Rightarrow> err option) \<Rightarrow> plugin \<Rightarrow> err option \<times> plugin" where
  "postInvoke_heap throws s =
     (if heapsnapshotEnabled s then
        let s1 = s\<lparr>heap := Some \<lparr>written = [], ended = False\<rparr>\<rparr>;
            s2 = log ''Posting takeHeapSnapshot to inspector.'' s1
        in (case inspector_post throws HeapProfiler_takeHeapSnapshot s2 of
              Inl e \<Rightarrow> (Some e, s2)
            | Inr s' \<Rightarrow> (None, s'))
      else (None, s))"

text \<open>
  \<open>new Promise(async resolve => { ... })\<close> starts with a pending promise and a
  closure none of whose variables is bound yet.
\<close>

definition new_closure :: "plugin \<Rightarrow> plugin" where
  "new_closure s =
     s\<lparr>promise := Pending, filesSeen := 0, filesCount := 0, signedRequestURL := [],
       the_archive := None, archiveBuffer := [], heap := None, awaitingPut := 0\<rparr>"

text \<open>
  \<open>postInvoke\<close> (lines 137 to 223), up to the point where the executor of the promise
  has run through: the state it leaves, with the promise it returned. \<open>arch\<close> is the
  error that \<open>archiver.default('zip')\<close> raises, if any. The handlers registered on the
  archive and the session run later, in \<open>step\<close>.
\<close>

definition postInvoke ::
  "signing \<Rightarrow> err option \<Rightarrow> (command \<Rightarrow> err option) \<Rightarrow> plugin \<Rightarrow> plugin" where
  "postInvoke sg arch throws s =
     (if \<not> enabled s then s\<lparr>promise := Resolved VFalse\<rparr>
      else
        case getSignedUrl sg (new_closure s) of
          (Inl e, s1) \<Rightarrow> postInvoke_catch e s1
        | (Inr url, s1) \<Rightarrow>
            (case arch of
               Some e \<Rightarrow> postInvoke_catch e s1
             | None \<Rightarrow>
                 let s2 = s1\<lparr>signedRequestURL := url,
                            the_archive := Some \<lparr>entries = [], finalizeCalls = 0, reported = 0,
                                                 finish_emitted = False\<rparr>,
                            archiveBuffer := [],
                            filesCount := of_bool (profilerEnabled s1) + of_bool (heapsnapshotEnabled s1),
                            filesSeen := 0\<rparr>
                 in (case postInvoke_cpu throws s2 of
                       (Some e, s3) \<Rightarrow> postInvoke_catch e s3
                     | (None, s3) \<Rightarrow>
                         (case postInvoke_heap throws s3 of
                            (Some e, s4) \<Rightarrow> postInvoke_catch e s4
                          | (None, s4) \<Rightarrow> s4))))"

subsection \<open>Callbacks and listeners\<close>

text \<open>
  An event is one invocation of a callback or listener by a collaborator:
  \<^item> \<open>Reply c err result\<close>: the callback given to \<open>post\<close> with command \<open>c\<close> is called
    with \<open>(err, result)\<close>; for \<open>Profiler.stop\<close>, \<open>Some profile\<close> is a result object
    whose property \<open>profile\<close> is that value, and \<open>None\<close> is no result object;
  \<^item> \<open>HeapSnapshotProgress arg\<close> and \<open>HeapSnapshotChunk arg\<close>: the listener of
    \<open>HeapProfiler.reportHeapSnapshotProgress\<close>, or of
    \<open>HeapProfiler.addHeapSnapshotChunk\<close>, is called with the value \<open>arg\<close>, whatever
    its shape;
  \<^item> \<open>ArchiveData chunk\<close>, \<open>ArchiveEntry\<close>, \<open>ArchiveFinish\<close>: the archive's events;
  \<^item> \<open>PutSettled err\<close>: the upload request awaited in the \<open>finish\<close> handler settles,
    with an error when it rejects.
\<close>

datatype event =
    Reply command "err option" "json option"
  | HeapSnapshotProgress json
  | HeapSnapshotChunk json
  | ArchiveData string
  | ArchiveEntry
  | ArchiveFinish
  | PutSettled "err option"

definition log_if :: "string \<Rightarrow> err option \<Rightarrow> plugin \<Rightarrow> plugin" where
  "log_if prefix e s = (case e of Some x \<Rightarrow> log (prefix @ x) s | None \<Rightarrow> s)"

text \<open>A \<open>post\<close> made inside a callback: an error it raises leaves the callback.\<close>

definition post_in_callback :: "(command \<Rightarrow> err option) \<Rightarrow> command \<Rightarrow> plugin \<Rightarrow> plugin" where
  "post_in_callback throws c s =
     (case inspector_post throws c s of
        Inl e \<Rightarrow> s\<lparr>escaped := escaped s @ [e]\<rparr>
      | Inr s' \<Rightarrow> s')"

text \<open>The body of each callback given to \<open>post\<close> (lines 82 to 107, 180 to 185, 211 to 215).\<close>

fun on_reply ::
  "(command \<Rightarrow> err option) \<Rightarrow> command \<Rightarrow> err option \<Rightarrow> json option \<Rightarrow> plugin \<Rightarrow> plugin" where
  "on_reply throws HeapProfiler_enable e r s = log_if ''Error enabling profiler::'' e s"
| "on_reply throws Profiler_enable e r s =
     post_in_callback throws (Profiler_setSamplingInterval (cfg_sampleRate (config s)))
       (log_if ''Error enabling profiler::'' e s)"
| "on_reply throws (Profiler_setSamplingInterval i) e r s =
     post_in_callback throws Profiler_start (log_if ''Error from profiler::'' e s)"
| "on_reply throws Profiler_start e r s = log_if ''Error starting profiler::'' e s"
| "on_reply throws Profiler_stop e r s =
     (case r of
        None \<Rightarrow> s\<lparr>escaped := escaped s @ [''TypeError'']\<rparr>
      | Some profile \<Rightarrow>
          archive_append ''profile.cpuprofile'' (Text (JSON_stringify profile))
            (log ''adding cpuprofile to archive.'' s))"
| "on_reply throws HeapProfiler_takeHeapSnapshot e r s =
     log ''Appended heap snapshot to archive.''
       (archive_append ''profile.heapsnapshot'' HeapStream
          (log ''Appending heap snapshot to archive'' s))"

text \<open>
  The values a listener is called with are JavaScript values; they are taken from the
  values above (\<open>None\<close> is \<open>undefined\<close>). \<open>if (v)\<close> takes the branch for a value
  that is truthy.
\<close>

definition truthy :: "json option \<Rightarrow> bool" where
  "truthy v =
     (case v of
        None \<Rightarrow> False
      | Some JNull \<Rightarrow> False
      | Some (JBool b) \<Rightarrow> b
      | Some (JNum i) \<Rightarrow> i \<noteq> 0
      | Some (JStr x) \<Rightarrow> x \<noteq> []
      | Some (JArr xs) \<Rightarrow> True
      | Some (JObj kvs) \<Rightarrow> True)"

text \<open>
  The parameter pattern \<open>({ chunk })\<close> of line 200 reads the property \<open>chunk\<close> of
  the argument: of an object, the property if it has one; of any other value but
  \<open>null\<close>, \<open>undefined\<close>; destructuring \<open>null\<close> raises.
  The parameter pattern \<open>([, , finished])\<close> of line 191 iterates over the argument and
  takes the third element: of an array or a string, the element if there is one; any
  other value is not iterable, and the call raises.
\<close>

definition destructure_chunk :: "json \<Rightarrow> err + json option" where
  "destructure_chunk arg =
     (case arg of
        JNull \<Rightarrow> Inl ''TypeError''
      | JObj kvs \<Rightarrow> Inr (map_of kvs ''chunk'')
      | _ \<Rightarrow> Inr None)"

definition destructure_finished :: "json \<Rightarrow> err + json option" where
  "destructure_finished arg =
     (case arg of
        JArr xs \<Rightarrow> Inr (if 2 < length xs then Some (xs ! 2) else None)
      | JStr x \<Rightarrow> Inr (if 2 < length x then Some (JStr [x ! 2]) else None)
      | _ \<Rightarrow> Inl ''TypeError'')"

text \<open>
  What an \<open>inspector.Session\<close> calls a listener with: the notification as a whole,
  one object with the properties \<open>method\<close> and \<open>params\<close>.
\<close>

definition notification :: "string \<Rightarrow> (string \<times> json) list \<Rightarrow> json" where
  "notification name params = JObj [(''method'', JStr name), (''params'', JObj params)]"

definition session_chunk :: "string \<Rightarrow> event" where
  "session_chunk chunk =
     HeapSnapshotChunk
       (notification ''HeapProfiler.addHeapSnapshotChunk'' [(''chunk'', JStr chunk)])"

definition session_progress :: "int \<Rightarrow> int \<Rightarrow> bool \<Rightarrow> event" where
  "session_progress d n fin =
     HeapSnapshotProgress
       (notification ''HeapProfiler.reportHeapSnapshotProgress''
          [(''done'', JNum d), (''total'', JNum n), (''finished'', JBool fin)])"

text \<open>
  \<open>heap.write(chunk)\<close> and \<open>heap.end()\<close> on the pass-through stream. The stream
  takes strings: a write of anything else raises and adds nothing. A write to a stream
  that has ended adds nothing to it; the stream reports the error on its own.
\<close>

definition heap_write :: "json option \<Rightarrow> plugin \<Rightarrow> plugin" where
  "heap_write chunk s =
     (case heap s of
        None \<Rightarrow> s
      | Some h \<Rightarrow>
          (case chunk of
             Some (JStr text) \<Rightarrow>
               if ended h then s\<lparr>escaped := escaped s @ [''write after end'']\<rparr>
               else s\<lparr>heap := Some (h\<lparr>written := written h @ [text]\<rparr>)\<rparr>
           | _ \<Rightarrow> s\<lparr>escaped := escaped s @ [''TypeError'']\<rparr>))"

text \<open>
  The archive emits an \<open>entry\<close> event, and a \<open>finish\<close> event: its own record of
  what it has emitted, before the program's handler runs.
\<close>

definition archive_emits_entry :: "plugin \<Rightarrow> plugin" where
  "archive_emits_entry s =
     s\<lparr>the_archive := map_option (\<lambda>a. a\<lparr>reported := Suc (reported a)\<rparr>) (the_archive s)\<rparr>"

definition archive_emits_finish :: "plugin \<Rightarrow> plugin" where
  "archive_emits_finish s =
     s\<lparr>the_archive := map_option (\<lambda>a. a\<lparr>finish_emitted := True\<rparr>) (the_archive s)\<rparr>"

definition heap_end :: "plugin \<Rightarrow> plugin" where
  "heap_end s = s\<lparr>heap := map_option (\<lambda>h. h\<lparr>ended := True\<rparr>) (heap s)\<rparr>"

text \<open>
  The two listeners that \<open>postInvoke\<close> puts on the session (lines 189 to 206), called
  with the value \<open>arg\<close>. An error raised while the parameter is destructured, or by
  \<open>heap.write\<close>, leaves the listener.
\<close>

definition on_progress :: "json \<Rightarrow> plugin \<Rightarrow> plugin" where
  "on_progress arg s =
     (case destructure_finished arg of
        Inl e \<Rightarrow> s\<lparr>escaped := escaped s @ [e]\<rparr>
      | Inr finished \<Rightarrow>
          if truthy finished then heap_end (log ''snapshot completed. closing stream.'' s)
          else s)"

definition on_chunk :: "json \<Rightarrow> plugin \<Rightarrow> plugin" where
  "on_chunk arg s =
     (case destructure_chunk arg of
        Inl e \<Rightarrow> s\<lparr>escaped := escaped s @ [e]\<rparr>
      | Inr chunk \<Rightarrow>
          if truthy chunk then heap_write chunk (log ''writing snapshot chunk.'' s)
          else s)"

text \<open>
  One event. A callback runs once for a command that is pending; the heap listeners
  exist once \<open>heap\<close> does (lines 188 to 206), the archive's handlers once the archive
  does (lines 154 to 178); the continuation after \<open>await request(...)\<close> (line 166) runs
  for a \<open>finish\<close> handler that is waiting.
\<close>

fun step :: "(command \<Rightarrow> err option) \<Rightarrow> event \<Rightarrow> plugin \<Rightarrow> plugin" where
  "step throws (Reply c e r) s =
     (if c \<in> set (pending s) then on_reply throws c e r (s\<lparr>pending := remove1 c (pending s)\<rparr>)
      else s)"
| "step throws (HeapSnapshotProgress arg) s = (if heap s = None then s else on_progress arg s)"
| "step throws (HeapSnapshotChunk arg) s = (if heap s = None then s else on_chunk arg s)"
| "step throws (ArchiveData chunk) s =
     (if the_archive s = None then s else s\<lparr>archiveBuffer := archiveBuffer s @ [chunk]\<rparr>)"
| "step throws ArchiveEntry s =
     (if the_archive s = None then s
      else
        let s0 = archive_emits_entry s;
            s1 = log (''Archive received entry ['' @ show_nat (filesSeen s0) @ ''/'' @
                      show_nat (filesCount s0) @ '']'') s0;
            s2 = s1\<lparr>filesSeen := Suc (filesSeen s1)\<rparr>
        in if filesSeen s2 \<ge> filesCount s2
           then archive_finalize (log ''Last entry. Finalizing archive.'' s2)
           else s2)"
| "step throws ArchiveFinish s =
     (if the_archive s = None then s
      else
        let s0 = archive_emits_finish s
        in s0\<lparr>requests := requests s0 @
                [\<lparr>req_body = concat (archiveBuffer s0), req_verb = PUT,
                  req_target = signedRequestURL s0, req_token = None\<rparr>],
              awaitingPut := Suc (awaitingPut s0)\<rparr>)"
| "step throws (PutSettled e) s =
     (if awaitingPut s = 0 then s
      else
        let s1 = s\<lparr>awaitingPut := awaitingPut s - 1\<rparr>
        in (case e of
              Some x \<Rightarrow> s1\<lparr>escaped := escaped s1 @ [x]\<rparr>
            | None \<Rightarrow> resolve s1))"

fun run :: "(command \<Rightarrow> err option) \<Rightarrow> event list \<Rightarrow> plugin \<Rightarrow> plugin" where
  "run throws [] s = s"
| "run throws (ev # evs) s = run throws evs (step throws ev s)"

text \<open>Observations used in the statements below.\<close>

definition finalized :: "plugin \<Rightarrow> nat" where
  "finalized s = (case the_archive s of None \<Rightarrow> 0 | Some a \<Rightarrow> finalizeCalls a)"

definition archive_entries :: "plugin \<Rightarrow> (string \<times> source) list" where
  "archive_entries s = (case the_archive s of None \<Rightarrow> [] | Some a \<Rightarrow> entries a)"

definition puts :: "plugin \<Rightarrow> request list" where
  "puts s = filter (\<lambda>r. req_verb r = PUT) (requests s)"

definition no_fault :: "command \<Rightarrow> err option" where
  "no_fault c = None"

definition is_reply :: "event \<Rightarrow> bool" where
  "is_reply ev = (case ev of Reply c e r \<Rightarrow> True | _ \<Rightarrow> False)"

definition is_reply_to :: "command \<Rightarrow> event \<Rightarrow> bool" where
  "is_reply_to c ev = (case ev of Reply c' e r \<Rightarrow> c' = c | _ \<Rightarrow> False)"

definition entries_named :: "plugin \<Rightarrow> string \<Rightarrow> (string \<times> source) list" where
  "entries_named s name = filter (\<lambda>e. fst e = name) (archive_entries s)"

text \<open>
  The bytes an entry's source yields: the string itself, or what has been written to
  the stream \<open>heap\<close>.
\<close>

definition payload :: "plugin \<Rightarrow> source \<Rightarrow> string" where
  "payload s src =
     (case src of
        Text x \<Rightarrow> x
      | HeapStream \<Rightarrow> (case heap s of None \<Rightarrow> [] | Some h \<Rightarrow> concat (written h)))"

definition entry_payloads :: "plugin \<Rightarrow> string \<Rightarrow> string list" where
  "entry_payloads s name = map (\<lambda>e. payload s (snd e)) (entries_named s name)"

definition heap_ended :: "plugin \<Rightarrow> bool" where
  "heap_ended s = (case heap s of None \<Rightarrow> False | Some h \<Rightarrow> ended h)"

subsection \<open>Concrete plugins and inputs\<close>

definition example_invocation :: invocation where
  "example_invocation =
     \<lparr>clientId = Some ''client'', invokedFunctionArn = Some ''arn:aws:lambda:f'',
      awsRequestId = Some ''req-1'', startTimestamp = Some 1500000000\<rparr>"

definition example_opts :: "bool \<Rightarrow> bool \<Rightarrow> pluginOpts" where
  "example_opts cpu hp =
     \<lparr>opt_recSamples = None, opt_sampleRate = None, opt_enabled = Some cpu,
      opt_heapSnapshot = Some hp, opt_debug = Some True\<rparr>"

definition example_plugin :: "bool \<Rightarrow> bool \<Rightarrow> plugin" where
  "example_plugin cpu hp =
     ProfilerPlugin (example_opts cpu hp) (Some example_invocation) None None ''signer.example''"

definition example_response :: response where
  "example_response = \<lparr>signedRequest = ''https://x/y'', jwtAccess = ''tok1''\<rparr>"

definition example_profile :: json where
  "example_profile = JObj [(''nodes'', JArr [])]"

text \<open>Without an archive no handler of the upload sequence exists.\<close>

definition quiet :: "plugin \<Rightarrow> bool" where
  "quiet s \<longleftrightarrow> the_archive s = None \<and> awaitingPut s = 0"

definition upload_failure_run :: "event list" where
  "upload_failure_run =
     [Reply Profiler_stop None (Some example_profile), ArchiveEntry, ArchiveData ''PK'',
      ArchiveFinish, PutSettled (Some ''ETIMEDOUT'')]"

definition shaped_chunk :: "string \<Rightarrow> event" where
  "shaped_chunk chunk = HeapSnapshotChunk (JObj [(''chunk'', JStr chunk)])"

definition shaped_progress :: "int \<Rightarrow> int \<Rightarrow> bool \<Rightarrow> event" where
  "shaped_progress d n fin = HeapSnapshotProgress (JArr [JNum d, JNum n, JBool fin])"

definition session_snapshot :: "event list" where
  "session_snapshot = [session_chunk ''a'', session_chunk ''b'', session_progress 2 2 True]"

definition shaped_snapshot :: "event list" where
  "shaped_snapshot = [shaped_chunk ''a'', shaped_chunk ''b'', shaped_progress 2 2 True]"

definition zero_count_plugin :: plugin where
  "zero_count_plugin = (example_plugin False False)\<lparr>enabled := True\<rparr>"

subsection \<open>What the session and the archive can do\<close>

text \<open>
  The events are not arbitrary: a callback is called for a command that was posted and
  has not been answered; the archive reports its entries (\<open>entry\<close>) in the order in
  which they were appended, each one once and after its source has been read to the end
  (a string at once, the stream \<open>heap\<close> when it has ended); it emits \<open>finish\<close> once,
  after \<open>finalize\<close> has been called and every entry has been reported; a PUT settles
  when one is awaited. \<open>can_emit s ev\<close> says that \<open>ev\<close> can occur in the state \<open>s\<close>,
  \<open>feasible\<close> that a whole sequence can occur, one event after the other.
\<close>

definition reported_entries :: "plugin \<Rightarrow> nat" where
  "reported_entries s = (case the_archive s of None \<Rightarrow> 0 | Some a \<Rightarrow> reported a)"

definition source_complete :: "plugin \<Rightarrow> source \<Rightarrow> bool" where
  "source_complete s src = (case src of Text x \<Rightarrow> True | HeapStream \<Rightarrow> heap_ended s)"

fun can_emit :: "plugin \<Rightarrow> event \<Rightarrow> bool" where
  "can_emit s (Reply c e r) = (c \<in> set (pending s))"
| "can_emit s (HeapSnapshotProgress arg) = True"
| "can_emit s (HeapSnapshotChunk arg) = True"
| "can_emit s (ArchiveData chunk) = (the_archive s \<noteq> None)"
| "can_emit s ArchiveEntry =
     (case the_archive s of
        None \<Rightarrow> False
      | Some a \<Rightarrow>
          reported a < length (entries a) \<and> source_complete s (snd (entries a ! reported a)))"
| "can_emit s ArchiveFinish =
     (case the_archive s of
        None \<Rightarrow> False
      | Some a \<Rightarrow>
          0 < finalizeCalls a \<and> reported a = length (entries a) \<and> \<not> finish_emitted a)"
| "can_emit s (PutSettled e) = (0 < awaitingPut s)"

fun feasible :: "(command \<Rightarrow> err option) \<Rightarrow> event list \<Rightarrow> plugin \<Rightarrow> bool" where
  "feasible throws [] s = True"
| "feasible throws (ev # evs) s = (can_emit s ev \<and> feasible throws evs (step throws ev s))"

text \<open>The commands whose callback appends an entry, and how many of them are pending.\<close>

definition is_capture :: "command \<Rightarrow> bool" where
  "is_capture c \<longleftrightarrow> c = Profiler_stop \<or> c = HeapProfiler_takeHeapSnapshot"

definition captures_pending :: "plugin \<Rightarrow> nat" where
  "captures_pending s = length (filter is_capture (pending s))"

text \<open>
  The state of the archive as the upload sequence keeps it: the archive has reported as
  many entries as the handler has counted, no more than were appended; the entries
  appended and those still to come are no more than expected; \<open>finalize\<close> has been
  called once if the count has reached the expected number, and not before.
\<close>

definition archive_inv :: "plugin \<Rightarrow> bool" where
  "archive_inv s =
     (case the_archive s of
        None \<Rightarrow> False
      | Some a \<Rightarrow>
          reported a = filesSeen s \<and> reported a \<le> length (entries a) \<and>
          length (entries a) + captures_pending s \<le> filesCount s \<and>
          0 < filesCount s \<and>
          finalizeCalls a = (if filesSeen s = filesCount s then 1 else 0))"

text \<open>The upload sequence with nothing to wait for: no entry, no capture pending.\<close>

definition idle :: "plugin \<Rightarrow> bool" where
  "idle s =
     (case the_archive s of
        None \<Rightarrow> False
      | Some a \<Rightarrow>
          entries a = [] \<and> reported a = 0 \<and> finalizeCalls a = 0 \<and>
          captures_pending s = 0 \<and> awaitingPut s = 0 \<and> promise s = Pending)"

section \<open>Properties\<close>

subsection \<open>Facts about the handlers\<close>

lemmas example_defs = example_plugin_def example_opts_def example_invocation_def
  example_response_def example_profile_def ProfilerPlugin_def assign_def defaultConfig_def
  enabled_flag_def

lemmas helper_defs = log_def log_if_def resolve_def archive_append_def archive_finalize_def
  heap_write_def heap_end_def post_in_callback_def inspector_post_def
  archive_emits_entry_def archive_emits_finish_def

text \<open>The heap listeners touch the stream, the console and the escaped errors only.\<close>

lemma on_chunk_frame [simp]:
  "the_archive (on_chunk a s) = the_archive s" "uploads (on_chunk a s) = uploads s"
  "requests (on_chunk a s) = requests s" "promise (on_chunk a s) = promise s"
  "awaitingPut (on_chunk a s) = awaitingPut s" "pending (on_chunk a s) = pending s"
  "posted (on_chunk a s) = posted s" "filesSeen (on_chunk a s) = filesSeen s"
  "filesCount (on_chunk a s) = filesCount s"
  by (auto simp: on_chunk_def helper_defs split: sum.splits option.splits json.splits)

lemma on_progress_frame [simp]:
  "the_archive (on_progress a s) = the_archive s" "uploads (on_progress a s) = uploads s"
  "requests (on_progress a s) = requests s" "promise (on_progress a s) = promise s"
  "awaitingPut (on_progress a s) = awaitingPut s" "pending (on_progress a s) = pending s"
  "posted (on_progress a s) = posted s" "filesSeen (on_progress a s) = filesSeen s"
  "filesCount (on_progress a s) = filesCount s"
  by (auto simp: on_progress_def helper_defs split: sum.splits)

lemma on_reply_archive: "the_archive (on_reply t c e r s) = None \<longleftrightarrow> the_archive s = None"
  by (cases c) (auto simp: helper_defs split: option.splits)

lemma on_reply_counters:
  "filesSeen (on_reply t c e r s) = filesSeen s" "filesCount (on_reply t c e r s) = filesCount s"
  "finalized (on_reply t c e r s) = finalized s"
  by (cases c; auto simp: helper_defs finalized_def split: option.splits)+

lemma step_archive: "the_archive (step t ev s) = None \<longleftrightarrow> the_archive s = None"
  by (cases ev) (auto simp: helper_defs on_reply_archive Let_def split: option.splits)

lemma step_filesCount: "filesCount (step t ev s) = filesCount s"
  by (cases ev) (auto simp: helper_defs on_reply_counters Let_def split: option.splits)

lemmas postInvoke_defs = postInvoke_def getSignedUrl_def new_closure_def postInvoke_catch_def
  postInvoke_cpu_def postInvoke_heap_def

lemma postInvoke_archive_created:
  assumes "enabled s" and "invocationInstance s \<noteq> None"
  shows "the_archive (postInvoke (Response r) None t s) =
           Some \<lparr>entries = [], finalizeCalls = 0, reported = 0, finish_emitted = False\<rparr>"
    and "filesSeen (postInvoke (Response r) None t s) = 0"
    and "filesCount (postInvoke (Response r) None t s) =
           of_bool (profilerEnabled s) + of_bool (heapsnapshotEnabled s)"
  using assms
  by (auto simp: postInvoke_defs helper_defs Let_def split: option.splits sum.splits)

subsection \<open>The state outside the upload sequence\<close>

lemma on_reply_kept:
  "uploads (on_reply t c e r s) = uploads s"
  "requests (on_reply t c e r s) = requests s"
  "promise (on_reply t c e r s) = promise s"
  "awaitingPut (on_reply t c e r s) = awaitingPut s"
  by (cases c; auto simp: helper_defs split: option.splits)+

lemma step_uploads: "uploads (step t ev s) = uploads s"
  by (cases ev) (auto simp: helper_defs on_reply_kept Let_def split: option.splits)

lemma run_uploads: "uploads (run t evs s) = uploads s"
  by (induction evs arbitrary: s) (simp_all add: step_uploads del: step.simps)

lemma postInvoke_uploads:
  assumes "enabled s" and "invocationInstance s \<noteq> None"
  shows "uploads (postInvoke (Response r) arch t s) = uploads s @ [jwtAccess r]"
  using assms
  by (auto simp: postInvoke_defs helper_defs Let_def split: option.splits sum.splits)

lemma step_quiet:
  assumes "quiet s"
  shows "quiet (step t ev s)" and "requests (step t ev s) = requests s"
    and "promise (step t ev s) = promise s"
  using assms
  by (cases ev; auto simp: quiet_def helper_defs on_reply_kept on_reply_archive Let_def
        split: option.splits)+

lemma run_quiet:
  "quiet s \<Longrightarrow> quiet (run t evs s) \<and> requests (run t evs s) = requests s \<and>
     promise (run t evs s) = promise s"
  by (induction evs arbitrary: s) (simp_all add: step_quiet del: step.simps)

lemma postInvoke_signing_failed:
  assumes "enabled s" and "sg = RequestFailed e \<or> sg = MalformedJSON e"
  shows "quiet (postInvoke sg arch t s)"
    and "promise (postInvoke sg arch t s) = Resolved VUndefined"
    and "puts (postInvoke sg arch t s) = puts s"
  using assms
  by (auto simp: postInvoke_defs helper_defs quiet_def puts_def Let_def
        split: option.splits sum.splits)

lemma getSignedUrl_response:
  assumes "invocationInstance s \<noteq> None"
  shows "fst (getSignedUrl (Response r) s) = Inr (signedRequest r)"
    and "uploads (snd (getSignedUrl (Response r) s)) = uploads s @ [jwtAccess r]"
    and "the_archive (snd (getSignedUrl (Response r) s)) = the_archive s"
    and "puts (snd (getSignedUrl (Response r) s)) = puts s"
  using assms
  by (auto simp: getSignedUrl_def helper_defs puts_def Let_def split: option.splits)

subsection \<open>A failed signing request\<close>

text \<open>
  C3. When the signing request fails (the request rejects, or its body is not JSON), the
  promise that \<open>postInvoke\<close> returns is resolved, not rejected, and whatever events
  follow, no PUT request is issued for the invocation: the requests with method PUT are
  those that were there before.
\<close>

theorem signing_failure_resolves_without_put:
  assumes "enabled s"
  shows "promise (run t evs (postInvoke (RequestFailed e) arch t s)) = Resolved VUndefined \<and>
         puts (run t evs (postInvoke (RequestFailed e) arch t s)) = puts s \<and>
         promise (run t evs (postInvoke (MalformedJSON e) arch t s)) = Resolved VUndefined \<and>
         puts (run t evs (postInvoke (MalformedJSON e) arch t s)) = puts s"
proof -
  have "promise (run t evs (postInvoke sg arch t s)) = Resolved VUndefined \<and>
        puts (run t evs (postInvoke sg arch t s)) = puts s"
    if "sg = RequestFailed e \<or> sg = MalformedJSON e" for sg
    using run_quiet [OF postInvoke_signing_failed(1) [OF assms that], of t evs]
      postInvoke_signing_failed(2,3) [OF assms that, of arch t]
    by (simp add: puts_def)
  then show ?thesis by blast
qed


theorem signing_failure_resolves_without_put_witness:
  "enabled (example_plugin True False) \<and>
   promise (run no_fault [ArchiveEntry, ArchiveFinish, PutSettled None]
     (postInvoke (RequestFailed ''ECONNREFUSED'') None no_fault (example_plugin True False)))
     = Resolved VUndefined \<and>
   puts (run no_fault [ArchiveEntry, ArchiveFinish, PutSettled None]
     (postInvoke (MalformedJSON ''SyntaxError'') None no_fault (example_plugin True False))) = []"
proof -
  have h: "enabled (example_plugin True False)" by (simp add: example_defs)
  have p: "puts (example_plugin True False) = []" by (simp add: example_defs puts_def)
  show ?thesis
    using signing_failure_resolves_without_put [OF h, of no_fault
        "[ArchiveEntry, ArchiveFinish, PutSettled None]" "''ECONNREFUSED''" None]
      signing_failure_resolves_without_put [OF h, of no_fault
        "[ArchiveEntry, ArchiveFinish, PutSettled None]" "''SyntaxError''" None] h p
    by (simp del: run.simps step.simps)
qed

subsection \<open>The access credential\<close>

text \<open>
  C9. One run of \<open>postInvoke\<close> whose signing request returns a response appends the
  response's \<open>jwtAccess\<close> to \<open>uploads\<close> exactly once, whatever follows: the list is
  the old one with the credential at its end, so the credential occurs once more than
  before (once, for a new plugin, whose list is empty).
\<close>

theorem credential_recorded_once:
  assumes "enabled s" and "invocationInstance s \<noteq> None"
  shows "uploads (run t evs (postInvoke (Response r) arch t s)) = uploads s @ [jwtAccess r] \<and>
         count_list (uploads (run t evs (postInvoke (Response r) arch t s))) (jwtAccess r) =
           Suc (count_list (uploads s) (jwtAccess r))"
  by (simp add: run_uploads postInvoke_uploads [OF assms])

theorem credential_recorded_once_witness:
  "enabled (example_plugin True True) \<and> invocationInstance (example_plugin True True) \<noteq> None \<and>
   jwtAccess example_response = ''tok1'' \<and>
   count_list (uploads (run no_fault
       [Reply Profiler_stop None (Some example_profile), ArchiveEntry,
        Reply HeapProfiler_takeHeapSnapshot None None, ArchiveEntry, ArchiveFinish,
        PutSettled None]
       (postInvoke (Response example_response) None no_fault (example_plugin True True))))
     ''tok1'' = 1"
proof -
  have h1: "enabled (example_plugin True True)"
    and h2: "invocationInstance (example_plugin True True) \<noteq> None"
    and u: "uploads (example_plugin True True) = []"
    and j: "jwtAccess example_response = ''tok1''"
    by (simp_all add: example_defs)
  show ?thesis
    using credential_recorded_once [OF h1 h2, of no_fault
        "[Reply Profiler_stop None (Some example_profile), ArchiveEntry,
          Reply HeapProfiler_takeHeapSnapshot None None, ArchiveEntry, ArchiveFinish,
          PutSettled None]" example_response None] h1 h2 u j
    by (simp del: run.simps step.simps)
qed

text \<open>
  C10. \<open>getSignedUrl\<close> appends the credential when the response is parsed: the state it
  returns has the credential in \<open>uploads\<close>, no archive yet and no PUT request. So in
  every run where signing succeeds, \<open>uploads\<close> holds the credential at the end, also
  when creating the archive raises, a \<open>post\<close> raises or the PUT request fails.
\<close>

theorem credential_kept_when_upload_fails:
  assumes "enabled s" and "invocationInstance s \<noteq> None"
  shows "uploads (snd (getSignedUrl (Response r) (new_closure s))) = uploads s @ [jwtAccess r] \<and>
         the_archive (snd (getSignedUrl (Response r) (new_closure s))) = None \<and>
         puts (snd (getSignedUrl (Response r) (new_closure s))) = puts s \<and>
         jwtAccess r \<in> set (uploads (run t evs (postInvoke (Response r) arch t s)))"
proof -
  have n: "invocationInstance (new_closure s) \<noteq> None" using assms(2)
    by (simp add: new_closure_def)
  have "uploads (new_closure s) = uploads s" "the_archive (new_closure s) = None"
    "puts (new_closure s) = puts s"
    by (simp_all add: new_closure_def puts_def)
  then show ?thesis
    using getSignedUrl_response(2-4) [OF n, of r]
    by (simp add: run_uploads postInvoke_uploads [OF assms])
qed

theorem credential_kept_when_upload_fails_witness:
  "enabled (example_plugin True False) \<and>
   invocationInstance (example_plugin True False) \<noteq> None \<and>
   promise (postInvoke (Response example_response) (Some ''archiver failed'') no_fault
       (example_plugin True False)) = Resolved VUndefined \<and>
   the_archive (postInvoke (Response example_response) (Some ''archiver failed'') no_fault
       (example_plugin True False)) = None \<and>
   ''tok1'' \<in> set (uploads (run no_fault []
     (postInvoke (Response example_response) (Some ''archiver failed'') no_fault
       (example_plugin True False)))) \<and>
   escaped (run no_fault
       [Reply Profiler_stop None (Some example_profile), ArchiveEntry, ArchiveFinish,
        PutSettled (Some ''ETIMEDOUT'')]
       (postInvoke (Response example_response) None no_fault (example_plugin True False)))
     = [''ETIMEDOUT''] \<and>
   ''tok1'' \<in> set (uploads (run no_fault
       [Reply Profiler_stop None (Some example_profile), ArchiveEntry, ArchiveFinish,
        PutSettled (Some ''ETIMEDOUT'')]
       (postInvoke (Response example_response) None no_fault (example_plugin True False))))"
proof -
  have h1: "enabled (example_plugin True False)"
    and h2: "invocationInstance (example_plugin True False) \<noteq> None"
    and j: "jwtAccess example_response = ''tok1''"
    by (simp_all add: example_defs)
  have a: "promise (postInvoke (Response example_response) (Some ''archiver failed'') no_fault
       (example_plugin True False)) = Resolved VUndefined"
    "the_archive (postInvoke (Response example_response) (Some ''archiver failed'') no_fault
       (example_plugin True False)) = None"
    by (simp_all add: example_defs postInvoke_defs helper_defs)
  have b: "escaped (run no_fault
       [Reply Profiler_stop None (Some example_profile), ArchiveEntry, ArchiveFinish,
        PutSettled (Some ''ETIMEDOUT'')]
       (postInvoke (Response example_response) None no_fault (example_plugin True False)))
     = [''ETIMEDOUT'']"
    by (simp add: example_defs postInvoke_defs helper_defs no_fault_def Let_def)
  show ?thesis
    using credential_kept_when_upload_fails [OF h1 h2, of example_response no_fault "[]"
        "Some ''archiver failed''"]
      credential_kept_when_upload_fails [OF h1 h2, of example_response no_fault
        "[Reply Profiler_stop None (Some example_profile), ArchiveEntry, ArchiveFinish,
          PutSettled (Some ''ETIMEDOUT'')]" None]
      h1 h2 j a b
    by (simp del: run.simps step.simps)
qed

subsection \<open>Callbacks, entries and requests\<close>

lemma promise_stays_pending:
  "promise s = Pending \<Longrightarrow> awaitingPut s = 0 \<Longrightarrow> ArchiveFinish \<notin> set evs \<Longrightarrow>
   promise (run t evs s) = Pending \<and> awaitingPut (run t evs s) = 0"
proof (induction evs arbitrary: s)
  case Nil
  then show ?case by simp
next
  case (Cons ev evs)
  have "promise (step t ev s) = Pending \<and> awaitingPut (step t ev s) = 0"
    using Cons.prems
    by (cases ev) (auto simp: helper_defs on_reply_kept Let_def split: option.splits)
  with Cons show ?case by (simp del: step.simps)
qed

lemma on_reply_pending: "x \<in> set (pending s) \<Longrightarrow> x \<in> set (pending (on_reply t c e r s))"
  by (cases c) (auto simp: helper_defs split: option.splits)

lemma step_pending:
  assumes "c \<in> set (pending s)" and "\<not> is_reply_to c ev"
  shows "c \<in> set (pending (step t ev s))"
proof (cases ev)
  case (Reply c' e r)
  with assms(2) have "c \<noteq> c'" by (simp add: is_reply_to_def)
  with assms(1) have "c \<in> set (pending (s\<lparr>pending := remove1 c' (pending s)\<rparr>))" by simp
  then show ?thesis using Reply assms(1) by (simp add: on_reply_pending)
qed (use assms(1) in \<open>auto simp: helper_defs Let_def split: option.splits\<close>)

lemma run_pending:
  "c \<in> set (pending s) \<Longrightarrow> \<not> list_ex (is_reply_to c) evs \<Longrightarrow> c \<in> set (pending (run t evs s))"
  by (induction evs arbitrary: s) (simp_all add: step_pending del: step.simps)

lemma on_reply_entries:
  "archive_entries (on_reply t c e r s) =
     archive_entries s @
       (if the_archive s = None then []
        else case c of
          Profiler_stop \<Rightarrow> (case r of None \<Rightarrow> []
             | Some profile \<Rightarrow> [(''profile.cpuprofile'', Text (JSON_stringify profile))])
        | HeapProfiler_takeHeapSnapshot \<Rightarrow> [(''profile.heapsnapshot'', HeapStream)]
        | _ \<Rightarrow> [])"
  by (cases c) (auto simp: helper_defs archive_entries_def split: option.splits)

lemma step_entries_other: "\<not> is_reply ev \<Longrightarrow> archive_entries (step t ev s) = archive_entries s"
  by (cases ev) (auto simp: is_reply_def helper_defs archive_entries_def Let_def split: option.splits)

lemma archive_entries_pending [simp]:
  "archive_entries (s\<lparr>pending := x\<rparr>) = archive_entries s"
  by (simp add: archive_entries_def)

lemma step_entries_named:
  assumes "\<not> is_reply_to c ev"
    and "c = Profiler_stop \<and> name = ''profile.cpuprofile'' \<or>
         c = HeapProfiler_takeHeapSnapshot \<and> name = ''profile.heapsnapshot''"
  shows "entries_named (step t ev s) name = entries_named s name"
proof (cases ev)
  case (Reply c' e r)
  with assms(1) have "c' \<noteq> c" by (simp add: is_reply_to_def)
  with assms(2) Reply show ?thesis
    by (auto simp: entries_named_def on_reply_entries split: option.splits command.splits)
qed (simp_all add: entries_named_def step_entries_other is_reply_def del: step.simps)

lemma run_entries_named:
  assumes "c = Profiler_stop \<and> name = ''profile.cpuprofile'' \<or>
         c = HeapProfiler_takeHeapSnapshot \<and> name = ''profile.heapsnapshot''"
  shows "\<not> list_ex (is_reply_to c) evs \<Longrightarrow> entries_named (run t evs s) name = entries_named s name"
  by (induction evs arbitrary: s) (simp_all add: step_entries_named [OF _ assms] del: step.simps)

lemma run_archive: "the_archive (run t evs s) = None \<longleftrightarrow> the_archive s = None"
  by (induction evs arbitrary: s) (simp_all add: step_archive del: step.simps)

lemma step_reply_entries:
  assumes "c \<in> set (pending s)" and "the_archive s \<noteq> None"
  shows "archive_entries (step t (Reply c e r) s) =
     archive_entries s @
       (case c of
          Profiler_stop \<Rightarrow> (case r of None \<Rightarrow> []
             | Some profile \<Rightarrow> [(''profile.cpuprofile'', Text (JSON_stringify profile))])
        | HeapProfiler_takeHeapSnapshot \<Rightarrow> [(''profile.heapsnapshot'', HeapStream)]
        | _ \<Rightarrow> [])"
  using assms by (auto simp: on_reply_entries)

lemma postInvoke_started:
  assumes "enabled s" and "invocationInstance s \<noteq> None"
    and "t Profiler_stop = None" and "t HeapProfiler_takeHeapSnapshot = None"
  shows "archive_entries (postInvoke (Response r) None t s) = []"
    and "profilerEnabled s \<Longrightarrow> Profiler_stop \<in> set (pending (postInvoke (Response r) None t s))"
    and "profilerEnabled s \<Longrightarrow> Profiler_stop \<in> set (posted (postInvoke (Response r) None t s))"
    and "heapsnapshotEnabled s \<Longrightarrow>
           HeapProfiler_takeHeapSnapshot \<in> set (pending (postInvoke (Response r) None t s))"
    and "heapsnapshotEnabled s \<Longrightarrow>
           HeapProfiler_takeHeapSnapshot \<in> set (posted (postInvoke (Response r) None t s))"
    and "heapsnapshotEnabled s \<Longrightarrow>
           heap (postInvoke (Response r) None t s) = Some \<lparr>written = [], ended = False\<rparr>"
    and "promise (postInvoke (Response r) None t s) = Pending"
    and "awaitingPut (postInvoke (Response r) None t s) = 0"
    and "puts (postInvoke (Response r) None t s) = puts s"
  using assms
  by (auto simp: postInvoke_defs helper_defs archive_entries_def puts_def Let_def
        split: option.splits sum.splits)

lemma step_requests: "ev \<noteq> ArchiveFinish \<Longrightarrow> requests (step t ev s) = requests s"
  by (cases ev) (auto simp: helper_defs on_reply_kept Let_def split: option.splits)

lemma run_requests: "ArchiveFinish \<notin> set evs \<Longrightarrow> requests (run t evs s) = requests s"
  by (induction evs arbitrary: s) (auto simp: step_requests simp del: step.simps)

subsection \<open>A failed upload\<close>

text \<open>
  C2. The claim: every error raised in the upload sequence of \<open>postInvoke\<close>, a failure
  of the PUT request included, is caught and logged, and the promise resolves.
  The code at a failed PUT: the request is awaited inside the \<open>async\<close> handler of the
  archive's \<open>finish\<close> event, which runs after the \<open>try\<close> of lines 142 to 221 has
  been left. A rejection there never resolves the promise and logs nothing, in any state;
  in the run below (CPU profile captured, entry registered, archive finished, PUT
  rejected with ETIMEDOUT) the promise is still pending at the end, no handler is left
  waiting that could resolve it, the error has left the handler uncaught, and the console
  (debug on) has no \<open>Error in upload\<close> line.
\<close>

theorem put_failure_leaves_promise_pending:
  "promise (step t (PutSettled (Some e)) s) = promise s \<and>
   console (step t (PutSettled (Some e)) s) = console s \<and>
   promise (run no_fault upload_failure_run
      (postInvoke (Response example_response) None no_fault (example_plugin True False))) = Pending \<and>
   escaped (run no_fault upload_failure_run
      (postInvoke (Response example_response) None no_fault (example_plugin True False))) = [''ETIMEDOUT''] \<and>
   awaitingPut (run no_fault upload_failure_run
      (postInvoke (Response example_response) None no_fault (example_plugin True False))) = 0 \<and>
   console (run no_fault upload_failure_run
      (postInvoke (Response example_response) None no_fault (example_plugin True False))) =
     [''@iopipe/profiler::Requesting signed url from signer.example'',
      ''@iopipe/profiler::adding cpuprofile to archive.'',
      ''@iopipe/profiler::Archive received entry [0/1]'',
      ''@iopipe/profiler::Last entry. Finalizing archive.'']"
proof -
  have "promise (step t (PutSettled (Some e)) s) = promise s"
    and "console (step t (PutSettled (Some e)) s) = console s"
    by (simp_all add: Let_def)
  moreover have "show_nat 0 = ''0''" "show_nat 1 = ''1''"
    by code_simp+
  ultimately show ?thesis
    by (simp add: upload_failure_run_def example_defs postInvoke_defs helper_defs no_fault_def
        Let_def)
qed

subsection \<open>Reading back what JSON.stringify writes\<close>

lemma of_char_digit_char: "d < 10 \<Longrightarrow> (of_char (digit_char d) :: nat) = 48 + d"
  by (simp add: digit_char_def)

lemma is_digit_digit_char: "d < 10 \<Longrightarrow> is_digit (digit_char d)"
  by (simp add: is_digit_def of_char_digit_char)

lemma digit_val_digit_char: "d < 10 \<Longrightarrow> digit_val (digit_char d) = d"
  by (simp add: digit_val_def of_char_digit_char)

lemma show_nat_digits: "list_all is_digit (show_nat n) \<and> show_nat n \<noteq> []"
proof (induction n rule: show_nat.induct)
  case (1 n)
  show ?case
  proof (cases "n < 10")
    case True
    then show ?thesis by (subst (1 2) show_nat.simps) (simp add: is_digit_digit_char)
  next
    case False
    with 1 show ?thesis by (subst (1 2) show_nat.simps) (simp add: is_digit_digit_char)
  qed
qed

lemma read_nat_snoc: "read_nat (ds @ [c]) = 10 * read_nat ds + digit_val c"
  by (simp add: read_nat_def)

lemma read_nat_show_nat: "read_nat (show_nat n) = n"
proof (induction n rule: show_nat.induct)
  case (1 n)
  show ?case
  proof (cases "n < 10")
    case True
    then show ?thesis
      by (subst show_nat.simps) (simp add: read_nat_def digit_val_digit_char)
  next
    case False
    with 1 show ?thesis
      by (subst show_nat.simps) (simp add: read_nat_snoc digit_val_digit_char)
  qed
qed



lemma digits_then_rest:
  assumes "list_all is_digit ds" and "ok_rest rest"
  shows "takeWhile is_digit (ds @ rest) = ds" and "dropWhile is_digit (ds @ rest) = rest"
proof -
  have a: "\<forall>c\<in>set ds. is_digit c" using assms(1) by (simp add: list_all_iff)
  have t: "takeWhile is_digit rest = []" and d: "dropWhile is_digit rest = rest"
    using assms(2) by (cases rest; simp add: ok_rest_def)+
  show "takeWhile is_digit (ds @ rest) = ds" using a t by (simp add: takeWhile_append2)
  show "dropWhile is_digit (ds @ rest) = rest" using a d by (simp add: dropWhile_append2)
qed

lemma hex_val_hex_char: "d < 16 \<Longrightarrow> hex_val (hex_char d) = Some d"
  by (simp add: hex_val_def hex_char_def Let_def)

lemma read_chars_escape: "read_chars (escape_char c @ s) = consed c (read_chars s)"
proof -
  consider "c = CHR 0x22" | "c = CHR 0x5C" | "c = CHR 0x08" | "c = CHR 0x0C" | "c = CHR 0x0A"
    | "c = CHR 0x0D" | "c = CHR 0x09"
    | "c \<notin> {CHR 0x22, CHR 0x5C, CHR 0x08, CHR 0x0C, CHR 0x0A, CHR 0x0D, CHR 0x09}"
      "(of_char c :: nat) < 32"
    | "c \<notin> {CHR 0x22, CHR 0x5C, CHR 0x08, CHR 0x0C, CHR 0x0A, CHR 0x0D, CHR 0x09}"
      "\<not> (of_char c :: nat) < 32"
    by blast
  then show ?thesis
  proof cases
    case 8
    let ?n = "of_char c :: nat"
    have h: "hex_val (hex_char (?n div 16)) = Some (?n div 16)"
      "hex_val (hex_char (?n mod 16)) = Some (?n mod 16)"
      using 8(2) by (simp_all add: hex_val_hex_char)
    have "char_of (16 * (?n div 16) + ?n mod 16) = c" by simp
    with 8 h show ?thesis by (simp add: escape_char_def)
  next
    case 9
    then show ?thesis by (simp add: escape_char_def)
  qed (simp_all add: escape_char_def unescape_def)
qed

lemma read_chars_quoted:
  "read_chars (concat (map escape_char s) @ CHR 0x22 # rest) = Some (s, rest)"
  by (induction s) (simp_all add: read_chars_escape consed_def)

lemma ok_rest_simps [simp]:
  "ok_rest []" "ok_rest (CHR '','' # r)" "ok_rest (CHR '']'' # r)" "ok_rest (CHR ''}'' # r)"
  by (simp_all add: ok_rest_def is_digit_def)

lemma show_nat_cons: "\<exists>d ds. show_nat n = d # ds \<and> is_digit d \<and> list_all is_digit ds"
  using show_nat_digits [of n] by (cases "show_nat n") simp_all

lemma stringify_first:
  "\<exists>c cs. JSON_stringify j = c # cs \<and> c \<noteq> CHR '']'' \<and> c \<noteq> CHR ''}''"
proof (cases j)
  case (JNum i)
  obtain d ds where "show_nat (nat \<bar>i\<bar>) = d # ds" "is_digit d"
    using show_nat_cons by blast
  moreover have "nat (- i) = nat \<bar>i\<bar>" if "i < 0" using that by simp
  moreover have "nat i = nat \<bar>i\<bar>" if "\<not> i < 0" using that by simp
  ultimately show ?thesis using JNum by (auto simp: show_int_def is_digit_def)
qed (auto simp: quote_def)



lemma reads_elems:
  assumes "\<And>x. x \<in> set xs \<Longrightarrow> reads x" and "xs \<noteq> []"
    and "length (commas (map JSON_stringify xs)) < f" and "ok_rest rest"
  shows "read_elems f (commas (map JSON_stringify xs) @ CHR '']'' # rest) = Some (xs, rest)"
  using assms
proof (induction xs arbitrary: f)
  case Nil
  then show ?case by simp
next
  case (Cons x xs)
  from Cons.prems(3) obtain g where f: "f = Suc g" by (cases f) simp_all
  have rx: "reads x" using Cons.prems(1) by simp
  show ?case
  proof (cases xs)
    case Nil
    have "read_value g (JSON_stringify x @ CHR '']'' # rest) = Some (x, CHR '']'' # rest)"
      using rx Cons.prems(3) f Nil by (simp add: reads_def)
    then show ?thesis using f Nil by simp
  next
    case (Cons y ys)
    let ?tail = "commas (map JSON_stringify xs) @ CHR '']'' # rest"
    have "read_value g (JSON_stringify x @ CHR '','' # ?tail) = Some (x, CHR '','' # ?tail)"
      using rx Cons.prems(3) f Cons by (simp add: reads_def)
    moreover have "read_elems g ?tail = Some (xs, rest)"
      using Cons.IH [of g] Cons.prems(1,3,4) f Cons by simp
    ultimately show ?thesis using f Cons by (simp add: consed_def)
  qed
qed

lemma reads_members:
  assumes "\<And>kv. kv \<in> set kvs \<Longrightarrow> reads (snd kv)" and "kvs \<noteq> []"
    and "length (commas (map (\<lambda>kv. quote (fst kv) @ CHR '':'' # JSON_stringify (snd kv)) kvs)) < f"
    and "ok_rest rest"
  shows "read_members f
           (commas (map (\<lambda>kv. quote (fst kv) @ CHR '':'' # JSON_stringify (snd kv)) kvs) @
            CHR ''}'' # rest) = Some (kvs, rest)"
  using assms
proof (induction kvs arbitrary: f)
  case Nil
  then show ?case by simp
next
  case (Cons kv kvs)
  obtain k v where kv: "kv = (k, v)" by (cases kv)
  from Cons.prems(3) obtain g where f: "f = Suc g" by (cases f) simp_all
  have rv: "reads v" using Cons.prems(1) [of kv] kv by simp
  show ?case
  proof (cases kvs)
    case Nil
    have "read_value g (JSON_stringify v @ CHR ''}'' # rest) = Some (v, CHR ''}'' # rest)"
      using rv Cons.prems(3) f Nil kv by (simp add: reads_def)
    then show ?thesis using f Nil kv by (simp add: quote_def read_chars_quoted)
  next
    case (Cons kv' kvs')
    let ?tail = "commas (map (\<lambda>kv. quote (fst kv) @ CHR '':'' # JSON_stringify (snd kv)) kvs) @
            CHR ''}'' # rest"
    have "read_value g (JSON_stringify v @ CHR '','' # ?tail) = Some (v, CHR '','' # ?tail)"
      using rv Cons.prems(3) f Cons kv by (simp add: reads_def)
    moreover have "read_members g ?tail = Some (kvs, rest)"
      using Cons.IH [of g] Cons.prems(1,3,4) f Cons by simp
    ultimately show ?thesis using f Cons kv
      by (simp add: quote_def read_chars_quoted consed_def)
  qed
qed

lemma reads_all: "reads j"
proof (induction j)
  case JNull
  show ?case unfolding reads_def
  proof (intro allI impI)
    fix f rest assume "length (JSON_stringify JNull) \<le> f"
    then obtain g where "f = Suc g" by (cases f) simp_all
    then show "read_value f (JSON_stringify JNull @ rest) = Some (JNull, rest)"
      by (simp add: is_digit_def)
  qed
next
  case (JBool b)
  show ?case unfolding reads_def
  proof (intro allI impI)
    fix f rest assume "length (JSON_stringify (JBool b)) \<le> f"
    then obtain g where "f = Suc g" by (cases f) (simp_all split: if_splits)
    then show "read_value f (JSON_stringify (JBool b) @ rest) = Some (JBool b, rest)"
      by (simp add: is_digit_def)
  qed
next
  case (JNum i)
  show ?case unfolding reads_def
  proof (intro allI impI)
    fix f rest assume len: "length (JSON_stringify (JNum i)) \<le> f" and ok: "ok_rest rest"
    obtain g where f: "f = Suc g"
      using len show_nat_digits [of "nat i"] show_nat_digits [of "nat (- i)"]
      by (cases f) (simp_all add: show_int_def split: if_splits)
    show "read_value f (JSON_stringify (JNum i) @ rest) = Some (JNum i, rest)"
    proof (cases "i < 0")
      case True
      let ?ds = "show_nat (nat (- i))"
      have d: "list_all is_digit ?ds" "?ds \<noteq> []" using show_nat_digits by blast+
      have "takeWhile is_digit (?ds @ rest) = ?ds" "dropWhile is_digit (?ds @ rest) = rest"
        using digits_then_rest [OF d(1) ok] by simp_all
      then show ?thesis using True f d(2)
        by (simp add: show_int_def is_digit_def read_nat_show_nat)
    next
      case False
      obtain d ds where s: "show_nat (nat i) = d # ds" and d: "is_digit d" "list_all is_digit ds"
        using show_nat_cons by blast
      have all: "list_all is_digit (d # ds)" using d by simp
      have "takeWhile is_digit ((d # ds) @ rest) = d # ds"
        "dropWhile is_digit ((d # ds) @ rest) = rest"
        using digits_then_rest [OF all ok] by blast+
      moreover have "read_nat (d # ds) = nat i" using read_nat_show_nat [of "nat i"] s by simp
      ultimately show ?thesis using False f s d(1) by (simp add: show_int_def)
    qed
  qed
next
  case (JStr s)
  show ?case unfolding reads_def
  proof (intro allI impI)
    fix f rest assume "length (JSON_stringify (JStr s)) \<le> f"
    then obtain g where "f = Suc g" by (cases f) (simp_all add: quote_def)
    then show "read_value f (JSON_stringify (JStr s) @ rest) = Some (JStr s, rest)"
      by (simp add: quote_def is_digit_def read_chars_quoted)
  qed
next
  case (JArr xs)
  show ?case unfolding reads_def
  proof (intro allI impI)
    fix f rest assume len: "length (JSON_stringify (JArr xs)) \<le> f" and ok: "ok_rest rest"
    then obtain g where f: "f = Suc g" by (cases f) simp_all
    show "read_value f (JSON_stringify (JArr xs) @ rest) = Some (JArr xs, rest)"
    proof (cases xs)
      case Nil
      then show ?thesis using f by (simp add: is_digit_def)
    next
      case (Cons y ys)
      obtain c cs where c: "JSON_stringify y = c # cs" "c \<noteq> CHR '']''"
        using stringify_first by blast
      have "take 1 (commas (map JSON_stringify xs) @ CHR '']'' # rest) \<noteq> '']''"
        using Cons c by (cases ys) simp_all
      moreover have "read_elems g (commas (map JSON_stringify xs) @ CHR '']'' # rest) = Some (xs, rest)"
        using reads_elems [of xs g rest] JArr len ok f Cons by simp
      ultimately show ?thesis using f by (simp add: is_digit_def)
    qed
  qed
next
  case (JObj kvs)
  show ?case unfolding reads_def
  proof (intro allI impI)
    fix f rest assume len: "length (JSON_stringify (JObj kvs)) \<le> f" and ok: "ok_rest rest"
    then obtain g where f: "f = Suc g" by (cases f) simp_all
    let ?ms = "commas (map (\<lambda>kv. quote (fst kv) @ CHR '':'' # JSON_stringify (snd kv)) kvs)"
    show "read_value f (JSON_stringify (JObj kvs) @ rest) = Some (JObj kvs, rest)"
    proof (cases kvs)
      case Nil
      then show ?thesis using f by (simp add: is_digit_def)
    next
      case (Cons kv kvs')
      have "take 1 (?ms @ CHR ''}'' # rest) \<noteq> ''}''"
        using Cons by (cases kvs') (simp_all add: quote_def)
      moreover have r: "\<And>kv. kv \<in> set kvs \<Longrightarrow> reads (snd kv)"
      proof -
        fix kv :: "string \<times> json" assume "kv \<in> set kvs"
        moreover have "snd kv \<in> Basic_BNFs.snds kv" by (cases kv) simp
        ultimately show "reads (snd kv)" using JObj by blast
      qed
      have "read_members g (?ms @ CHR ''}'' # rest) = Some (kvs, rest)"
        using reads_members [of kvs g rest] r len ok f Cons by simp
      ultimately show ?thesis using f by (simp add: is_digit_def)
    qed
  qed
qed

lemma JSON_parse_stringify: "JSON_parse (JSON_stringify j) = Some j"
proof -
  have "read_value (Suc (length (JSON_stringify j))) (JSON_stringify j @ []) = Some (j, [])"
    using reads_all [of j] unfolding reads_def by (meson le_SucI order_refl ok_rest_simps(1))
  then show ?thesis by (simp add: JSON_parse_def)
qed

subsection \<open>What the entries hold\<close>

lemma run_append: "run t (xs @ ys) s = run t ys (run t xs s)"
  by (induction xs arbitrary: s) (simp_all del: step.simps)

lemma on_reply_heap: "heap (on_reply t c e r s) = heap s"
  by (cases c) (auto simp: helper_defs split: option.splits)

lemma run_with_reply_entries:
  assumes "c = Profiler_stop \<and> name = ''profile.cpuprofile'' \<or>
           c = HeapProfiler_takeHeapSnapshot \<and> name = ''profile.heapsnapshot''"
    and "c \<in> set (pending s)" and "the_archive s \<noteq> None" and "entries_named s name = []"
    and "\<not> list_ex (is_reply_to c) pre" and "\<not> list_ex (is_reply_to c) post"
  shows "entries_named (run t (pre @ Reply c e r # post) s) name =
           filter (\<lambda>e. fst e = name)
             (case c of
                Profiler_stop \<Rightarrow> (case r of None \<Rightarrow> []
                  | Some profile \<Rightarrow> [(''profile.cpuprofile'', Text (JSON_stringify profile))])
              | HeapProfiler_takeHeapSnapshot \<Rightarrow> [(''profile.heapsnapshot'', HeapStream)]
              | _ \<Rightarrow> [])"
proof -
  let ?s1 = "run t pre s"
  have p: "c \<in> set (pending ?s1)" using assms(2,5) by (rule run_pending)
  have a: "the_archive ?s1 \<noteq> None" using assms(3) by (simp add: run_archive)
  have n: "entries_named ?s1 name = []"
    using run_entries_named [OF assms(1,5), of t s] assms(4) by simp
  have "entries_named (run t (pre @ Reply c e r # post) s) name =
        entries_named (step t (Reply c e r) ?s1) name"
    using run_entries_named [OF assms(1,6), of t "step t (Reply c e r) ?s1"]
    by (simp add: run_append del: step.simps)
  also have "\<dots> = filter (\<lambda>e. fst e = name) (archive_entries ?s1 @
             (case c of
                Profiler_stop \<Rightarrow> (case r of None \<Rightarrow> []
                  | Some profile \<Rightarrow> [(''profile.cpuprofile'', Text (JSON_stringify profile))])
              | HeapProfiler_takeHeapSnapshot \<Rightarrow> [(''profile.heapsnapshot'', HeapStream)]
              | _ \<Rightarrow> []))"
    unfolding entries_named_def step_reply_entries [OF p a] ..
  finally show ?thesis using n by (simp add: entries_named_def)
qed

text \<open>
  C8. With CPU profiling enabled and signing successful, when the callback of
  \<open>Profiler.stop\<close> is called with a result holding the profile \<open>profile\<close> (once,
  whatever other events come before and after), the archive has exactly one entry named
  \<open>profile.cpuprofile\<close>, and its payload is \<open>JSON.stringify(profile)\<close>, which
  \<open>JSON.parse\<close> decodes back to the profile: for the profile \<open>{nodes: []}\<close>, the
  text \<open>{"nodes":[]}\<close>.
\<close>

theorem cpu_profile_entry:
  assumes "enabled s" and "invocationInstance s \<noteq> None" and "profilerEnabled s"
    and "\<not> list_ex (is_reply_to Profiler_stop) pre"
    and "\<not> list_ex (is_reply_to Profiler_stop) post"
  shows "entries_named
           (run no_fault (pre @ Reply Profiler_stop e (Some profile) # post)
              (postInvoke (Response r) None no_fault s))
           ''profile.cpuprofile'' = [(''profile.cpuprofile'', Text (JSON_stringify profile))] \<and>
         entry_payloads
           (run no_fault (pre @ Reply Profiler_stop e (Some profile) # post)
              (postInvoke (Response r) None no_fault s))
           ''profile.cpuprofile'' = [JSON_stringify profile] \<and>
         map JSON_parse
           (entry_payloads
              (run no_fault (pre @ Reply Profiler_stop e (Some profile) # post)
                 (postInvoke (Response r) None no_fault s))
              ''profile.cpuprofile'') = [Some profile]"
proof -
  let ?s0 = "postInvoke (Response r) None no_fault s"
  have nf: "no_fault Profiler_stop = None" "no_fault HeapProfiler_takeHeapSnapshot = None"
    by (simp_all add: no_fault_def)
  note st = postInvoke_started [OF assms(1,2) nf, of r]
  have a: "the_archive ?s0 \<noteq> None"
    using postInvoke_archive_created(1) [OF assms(1,2), of r no_fault] by simp
  have "entries_named (run no_fault (pre @ Reply Profiler_stop e (Some profile) # post) ?s0)
          ''profile.cpuprofile'' = [(''profile.cpuprofile'', Text (JSON_stringify profile))]"
    using run_with_reply_entries [of Profiler_stop "''profile.cpuprofile''" ?s0 pre post
        no_fault e "Some profile"]
      st(2) [OF assms(3)] a st(1) assms(4,5)
    by (simp add: entries_named_def)
  then show ?thesis by (simp add: entry_payloads_def payload_def JSON_parse_stringify)
qed

theorem cpu_profile_entry_witness:
  "entries_named
     (run no_fault
        [ArchiveData ''PK'', Reply Profiler_stop None (Some example_profile),
         Reply HeapProfiler_takeHeapSnapshot None None, ArchiveEntry, ArchiveEntry]
        (postInvoke (Response example_response) None no_fault (example_plugin True True)))
     ''profile.cpuprofile'' =
       [(''profile.cpuprofile'',
         Text ([CHR ''{'', CHR 0x22] @ ''nodes'' @ [CHR 0x22] @ '':[]}''))] \<and>
   map JSON_parse
     (entry_payloads
        (run no_fault
           [ArchiveData ''PK'', Reply Profiler_stop None (Some example_profile),
            Reply HeapProfiler_takeHeapSnapshot None None, ArchiveEntry, ArchiveEntry]
           (postInvoke (Response example_response) None no_fault (example_plugin True True)))
        ''profile.cpuprofile'') = [Some example_profile]"
proof -
  have h: "enabled (example_plugin True True)"
    "invocationInstance (example_plugin True True) \<noteq> None"
    "profilerEnabled (example_plugin True True)"
    "\<not> list_ex (is_reply_to Profiler_stop) [ArchiveData ''PK'']"
    "\<not> list_ex (is_reply_to Profiler_stop)
        [Reply HeapProfiler_takeHeapSnapshot None None, ArchiveEntry, ArchiveEntry]"
    by (simp_all add: example_defs is_reply_to_def)
  have j: "JSON_stringify example_profile = [CHR ''{'', CHR 0x22] @ ''nodes'' @ [CHR 0x22] @ '':[]}''"
    by (simp add: example_profile_def quote_def escape_char_def)
  show ?thesis
    using cpu_profile_entry [OF h, of None example_profile example_response] j
    by (elim conjE) (simp del: run.simps step.simps)
qed

subsection \<open>What the session and the archive allow\<close>

lemmas listener_defs = on_chunk_def on_progress_def destructure_chunk_def
  destructure_finished_def truthy_def notification_def session_chunk_def session_progress_def
  shaped_chunk_def shaped_progress_def session_snapshot_def shaped_snapshot_def

lemma step_reply_heap: "heap (step t (Reply c e r) s) = heap s"
  by (simp add: on_reply_heap)

lemma filter_remove1_length:
  "x \<in> set xs \<Longrightarrow>
   length (filter P xs) = length (filter P (remove1 x xs)) + (if P x then 1 else 0)"
  by (induction xs) auto

lemma on_reply_captures: "captures_pending (on_reply t c e r s) = captures_pending s"
  by (cases c) (auto simp: helper_defs captures_pending_def is_capture_def split: option.splits)

lemma on_reply_appends:
  assumes "the_archive s = Some a"
  shows "\<exists>k. the_archive (on_reply t c e r s) = Some (a\<lparr>entries := entries a @ k\<rparr>) \<and>
             length k \<le> (if is_capture c then 1 else 0)"
proof (cases c)
  case Profiler_stop
  show ?thesis
  proof (cases r)
    case None
    with Profiler_stop assms have "the_archive (on_reply t c e r s) = Some (a\<lparr>entries := entries a @ []\<rparr>)"
      by simp
    then show ?thesis by (metis list.size(3) le0)
  next
    case (Some profile)
    with Profiler_stop assms have "the_archive (on_reply t c e r s) =
        Some (a\<lparr>entries := entries a @ [(''profile.cpuprofile'', Text (JSON_stringify profile))]\<rparr>)"
      by (simp add: helper_defs)
    then show ?thesis using Profiler_stop by (auto simp: is_capture_def)
  qed
next
  case HeapProfiler_takeHeapSnapshot
  with assms have "the_archive (on_reply t c e r s) =
      Some (a\<lparr>entries := entries a @ [(''profile.heapsnapshot'', HeapStream)]\<rparr>)"
    by (simp add: helper_defs)
  then show ?thesis using HeapProfiler_takeHeapSnapshot by (auto simp: is_capture_def)
qed (use assms in \<open>auto simp: helper_defs split: option.splits intro!: exI [of _ "[]"]\<close>)

lemma step_archive_inv:
  assumes "archive_inv s" and "can_emit s ev"
  shows "archive_inv (step t ev s)"
proof (cases ev)
  case (Reply c e r)
  from assms(1) obtain a where a: "the_archive s = Some a"
    by (auto simp: archive_inv_def split: option.splits)
  let ?s1 = "s\<lparr>pending := remove1 c (pending s)\<rparr>"
  have c: "c \<in> set (pending s)" using assms(2) Reply by simp
  have cp: "captures_pending s = captures_pending ?s1 + (if is_capture c then 1 else 0)"
    using filter_remove1_length [OF c, of is_capture] by (simp add: captures_pending_def)
  obtain k where k: "the_archive (on_reply t c e r ?s1) = Some (a\<lparr>entries := entries a @ k\<rparr>)"
      "length k \<le> (if is_capture c then 1 else 0)"
    using on_reply_appends [of ?s1 a t c e r] a by auto
  show ?thesis
    using assms(1) a k cp Reply c
    by (auto simp: archive_inv_def on_reply_captures on_reply_counters split: if_splits)
next
  case ArchiveEntry
  with assms show ?thesis
    by (auto simp: archive_inv_def helper_defs captures_pending_def Let_def
        split: option.splits if_splits)
qed (use assms in \<open>auto simp: archive_inv_def helper_defs captures_pending_def Let_def
        split: option.splits if_splits\<close>)

lemma run_archive_inv: "archive_inv s \<Longrightarrow> feasible t evs s \<Longrightarrow> archive_inv (run t evs s)"
  by (induction evs arbitrary: s) (simp_all add: step_archive_inv del: step.simps)

lemma run_filesCount: "filesCount (run t evs s) = filesCount s"
  by (induction evs arbitrary: s) (simp_all add: step_filesCount del: step.simps)

lemma log_frame:
  "pending (log l s) = pending s" "the_archive (log l s) = the_archive s"
  "filesSeen (log l s) = filesSeen s" "filesCount (log l s) = filesCount s"
  "profilerEnabled (log l s) = profilerEnabled s"
  "heapsnapshotEnabled (log l s) = heapsnapshotEnabled s"
  "awaitingPut (log l s) = awaitingPut s" "promise (log l s) = promise s"
  "requests (log l s) = requests s"
  by (simp_all add: log_def)

lemma resolve_frame:
  "pending (resolve s) = pending s" "the_archive (resolve s) = the_archive s"
  "filesSeen (resolve s) = filesSeen s" "filesCount (resolve s) = filesCount s"
  "awaitingPut (resolve s) = awaitingPut s" "requests (resolve s) = requests s"
  by (simp_all add: resolve_def)

lemma postInvoke_captures:
  assumes "enabled s" and "invocationInstance s \<noteq> None"
  shows "captures_pending (postInvoke (Response r) None t s) \<le>
           captures_pending s + (of_bool (profilerEnabled s) + of_bool (heapsnapshotEnabled s))"
  using assms
  by (simp add: postInvoke_defs inspector_post_def log_frame resolve_frame
        captures_pending_def is_capture_def Let_def split: option.splits sum.splits)

lemma postInvoke_archive_inv:
  assumes "enabled s" and "invocationInstance s \<noteq> None"
    and "profilerEnabled s \<or> heapsnapshotEnabled s" and "captures_pending s = 0"
  shows "archive_inv (postInvoke (Response r) None t s)"
  using postInvoke_archive_created [OF assms(1,2), of r t] postInvoke_captures [OF assms(1,2), of r t]
    assms(3,4)
  by (auto simp: archive_inv_def)

lemma step_idle:
  assumes "idle s" and "can_emit s ev"
  shows "idle (step t ev s) \<and> requests (step t ev s) = requests s"
proof (cases ev)
  case (Reply c e r)
  from assms(1) obtain a where a: "the_archive s = Some a"
    by (auto simp: idle_def split: option.splits)
  let ?s1 = "s\<lparr>pending := remove1 c (pending s)\<rparr>"
  have c: "c \<in> set (pending s)" using assms(2) Reply by simp
  have cp: "captures_pending s = captures_pending ?s1 + (if is_capture c then 1 else 0)"
    using filter_remove1_length [OF c, of is_capture] by (simp add: captures_pending_def)
  have nc: "\<not> is_capture c" using cp assms(1) a by (auto simp: idle_def split: if_splits)
  obtain k where k: "the_archive (on_reply t c e r ?s1) = Some (a\<lparr>entries := entries a @ k\<rparr>)"
      "length k \<le> (if is_capture c then 1 else 0)"
    using on_reply_appends [of ?s1 a t c e r] a by auto
  show ?thesis
    using assms(1) a k cp nc Reply c
    by (auto simp: idle_def on_reply_captures on_reply_kept)
qed (use assms in \<open>auto simp: idle_def helper_defs captures_pending_def Let_def
        split: option.splits\<close>)

lemma run_idle:
  "idle s \<Longrightarrow> feasible t evs s \<Longrightarrow> idle (run t evs s) \<and> requests (run t evs s) = requests s"
  by (induction evs arbitrary: s) (simp_all add: step_idle del: step.simps)

lemma postInvoke_idle:
  assumes "enabled s" and "invocationInstance s \<noteq> None"
    and "\<not> profilerEnabled s" and "\<not> heapsnapshotEnabled s" and "captures_pending s = 0"
  shows "idle (postInvoke (Response r) None t s)" and "puts (postInvoke (Response r) None t s) = puts s"
    and "filesCount (postInvoke (Response r) None t s) = 0"
proof -
  from assms(2) obtain i where i: "invocationInstance s = Some i" by auto
  show "idle (postInvoke (Response r) None t s)"
    and "puts (postInvoke (Response r) None t s) = puts s"
    and "filesCount (postInvoke (Response r) None t s) = 0"
    using assms(1,3,4,5) i
    by (simp_all add: idle_def postInvoke_defs captures_pending_def puts_def log_def Let_def)
qed

subsection \<open>When the archive is finalized\<close>

text \<open>
  C1, as claimed, fails: registering an entry does not finalize the archive. With only
  CPU profiling enabled, once the callback of \<open>Profiler.stop\<close> has appended the entry
  \<open>profile.cpuprofile\<close>, one entry is registered, one capture type is enabled, and
  \<open>finalize\<close> has not been called. With only heap snapshotting enabled, after the
  session has delivered its notifications and the callback of the request has appended
  the entry \<open>profile.heapsnapshot\<close>, the entry is registered, \<open>finalize\<close> has not
  been called, and the archive can neither report the entry nor finish: the stream has
  not ended.
\<close>

theorem registered_entry_does_not_finalize:
  "feasible no_fault [Reply Profiler_stop None (Some example_profile)]
     (postInvoke (Response example_response) None no_fault (example_plugin True False)) \<and>
   archive_entries (run no_fault [Reply Profiler_stop None (Some example_profile)]
     (postInvoke (Response example_response) None no_fault (example_plugin True False))) =
     [(''profile.cpuprofile'', Text (JSON_stringify example_profile))] \<and>
   filesCount (run no_fault [Reply Profiler_stop None (Some example_profile)]
     (postInvoke (Response example_response) None no_fault (example_plugin True False))) = 1 \<and>
   finalized (run no_fault [Reply Profiler_stop None (Some example_profile)]
     (postInvoke (Response example_response) None no_fault (example_plugin True False))) = 0 \<and>
   feasible no_fault (session_snapshot @ [Reply HeapProfiler_takeHeapSnapshot None None])
     (postInvoke (Response example_response) None no_fault (example_plugin False True)) \<and>
   archive_entries
     (run no_fault (session_snapshot @ [Reply HeapProfiler_takeHeapSnapshot None None])
        (postInvoke (Response example_response) None no_fault (example_plugin False True))) =
     [(''profile.heapsnapshot'', HeapStream)] \<and>
   filesCount
     (run no_fault (session_snapshot @ [Reply HeapProfiler_takeHeapSnapshot None None])
        (postInvoke (Response example_response) None no_fault (example_plugin False True))) = 1 \<and>
   finalized
     (run no_fault (session_snapshot @ [Reply HeapProfiler_takeHeapSnapshot None None])
        (postInvoke (Response example_response) None no_fault (example_plugin False True))) = 0 \<and>
   \<not> can_emit
     (run no_fault (session_snapshot @ [Reply HeapProfiler_takeHeapSnapshot None None])
        (postInvoke (Response example_response) None no_fault (example_plugin False True)))
     ArchiveEntry \<and>
   \<not> can_emit
     (run no_fault (session_snapshot @ [Reply HeapProfiler_takeHeapSnapshot None None])
        (postInvoke (Response example_response) None no_fault (example_plugin False True)))
     ArchiveFinish"
  by (simp add: listener_defs example_defs postInvoke_defs helper_defs no_fault_def
      archive_entries_def finalized_def source_complete_def heap_ended_def Let_def)

text \<open>
  C1, amended. Take a plugin with at least one capture type enabled (flags 10, 01 or
  11) and no capture of an earlier invocation pending, a successful signing request,
  and any sequence of events that the session and the archive can produce.
  \<open>finalize\<close> is called from the handler of the archive's \<open>entry\<close> event: it has been
  called exactly once if the archive has reported as many entries as capture types are
  enabled, and not at all otherwise. The archive has reported no more entries than were
  registered, and no more entries were registered than capture types are enabled. So
  \<open>finalize\<close> is called at most once, and only after every enabled capture has
  registered its entry and the archive has reported each of them.
\<close>

theorem finalize_when_all_entries_reported:
  assumes "enabled s" and "invocationInstance s \<noteq> None"
    and "profilerEnabled s \<or> heapsnapshotEnabled s" and "captures_pending s = 0"
    and "feasible t evs (postInvoke (Response r) None t s)"
  shows "finalized (run t evs (postInvoke (Response r) None t s)) =
           (if reported_entries (run t evs (postInvoke (Response r) None t s)) =
               of_bool (profilerEnabled s) + of_bool (heapsnapshotEnabled s)
            then 1 else 0) \<and>
         reported_entries (run t evs (postInvoke (Response r) None t s)) \<le>
           length (archive_entries (run t evs (postInvoke (Response r) None t s))) \<and>
         length (archive_entries (run t evs (postInvoke (Response r) None t s))) \<le>
           of_bool (profilerEnabled s) + of_bool (heapsnapshotEnabled s)"
proof -
  let ?s0 = "postInvoke (Response r) None t s"
  have "archive_inv (run t evs ?s0)"
    using postInvoke_archive_inv [OF assms(1-4)] assms(5) by (rule run_archive_inv)
  moreover have "filesCount (run t evs ?s0) =
      of_bool (profilerEnabled s) + of_bool (heapsnapshotEnabled s)"
    using postInvoke_archive_created(3) [OF assms(1,2), of r t] by (simp add: run_filesCount)
  ultimately show ?thesis
    by (auto simp: archive_inv_def finalized_def reported_entries_def archive_entries_def
        split: option.splits if_splits)
qed


theorem finalize_when_all_entries_reported_witness:
  "feasible no_fault
     [Reply Profiler_stop None (Some example_profile), ArchiveEntry, shaped_chunk ''a'',
      shaped_progress 1 1 True, Reply HeapProfiler_takeHeapSnapshot None None, ArchiveEntry]
     (postInvoke (Response example_response) None no_fault (example_plugin True True)) \<and>
   finalized (run no_fault
     [Reply Profiler_stop None (Some example_profile), ArchiveEntry, shaped_chunk ''a'',
      shaped_progress 1 1 True, Reply HeapProfiler_takeHeapSnapshot None None, ArchiveEntry]
     (postInvoke (Response example_response) None no_fault (example_plugin True True))) = 1 \<and>
   feasible no_fault
     [Reply Profiler_stop None (Some example_profile), ArchiveEntry, shaped_chunk ''a'',
      Reply HeapProfiler_takeHeapSnapshot None None]
     (postInvoke (Response example_response) None no_fault (example_plugin True True)) \<and>
   finalized (run no_fault
     [Reply Profiler_stop None (Some example_profile), ArchiveEntry, shaped_chunk ''a'',
      Reply HeapProfiler_takeHeapSnapshot None None]
     (postInvoke (Response example_response) None no_fault (example_plugin True True))) = 0"
proof -
  let ?p = "example_plugin True True"
  let ?full = "[Reply Profiler_stop None (Some example_profile), ArchiveEntry, shaped_chunk ''a'',
      shaped_progress 1 1 True, Reply HeapProfiler_takeHeapSnapshot None None, ArchiveEntry]"
  let ?part = "[Reply Profiler_stop None (Some example_profile), ArchiveEntry, shaped_chunk ''a'',
      Reply HeapProfiler_takeHeapSnapshot None None]"
  have h: "enabled ?p" "invocationInstance ?p \<noteq> None"
    "profilerEnabled ?p \<or> heapsnapshotEnabled ?p" "captures_pending ?p = 0"
    by (simp_all add: example_defs captures_pending_def)
  have c: "of_bool (profilerEnabled ?p) + of_bool (heapsnapshotEnabled ?p) = (2::nat)"
    by (simp add: example_defs)
  have f: "feasible no_fault ?full (postInvoke (Response example_response) None no_fault ?p)"
    and g: "feasible no_fault ?part (postInvoke (Response example_response) None no_fault ?p)"
    by (simp_all add: listener_defs example_defs postInvoke_defs helper_defs no_fault_def
        source_complete_def heap_ended_def Let_def)
  have r: "reported_entries (run no_fault ?full
        (postInvoke (Response example_response) None no_fault ?p)) = 2"
    "reported_entries (run no_fault ?part
        (postInvoke (Response example_response) None no_fault ?p)) = 1"
    by (simp_all add: listener_defs example_defs postInvoke_defs helper_defs no_fault_def
        reported_entries_def Let_def)
  show ?thesis
    using finalize_when_all_entries_reported [OF h f] finalize_when_all_entries_reported [OF h g]
      f g r c
    by (elim conjE) (simp del: run.simps step.simps feasible.simps)
qed

subsection \<open>When the heap stream reaches the archive\<close>

text \<open>
  C4, as claimed, fails: the stream is not handed to the archive when the
  \<open>takeHeapSnapshot\<close> request is issued. After \<open>postInvoke\<close> has posted the request
  the stream exists and the archive has no entry; it still has none after the session's
  notifications of the chunks \<open>a\<close>, \<open>b\<close> and of the end of the snapshot, nor after
  these have come in the shape the listeners read, when the stream holds \<open>a\<close>, \<open>b\<close>
  and has ended; the entry is appended when the callback of the request runs.
\<close>

theorem heap_stream_not_appended_at_request:
  "HeapProfiler_takeHeapSnapshot \<in> set (posted
      (postInvoke (Response example_response) None no_fault (example_plugin False True))) \<and>
   heap (postInvoke (Response example_response) None no_fault (example_plugin False True)) =
     Some \<lparr>written = [], ended = False\<rparr> \<and>
   archive_entries
      (postInvoke (Response example_response) None no_fault (example_plugin False True)) = [] \<and>
   archive_entries (run no_fault session_snapshot
      (postInvoke (Response example_response) None no_fault (example_plugin False True))) = [] \<and>
   archive_entries (run no_fault shaped_snapshot
      (postInvoke (Response example_response) None no_fault (example_plugin False True))) = [] \<and>
   heap (run no_fault shaped_snapshot
      (postInvoke (Response example_response) None no_fault (example_plugin False True))) =
     Some \<lparr>written = [''a'', ''b''], ended = True\<rparr> \<and>
   archive_entries (run no_fault (session_snapshot @ [Reply HeapProfiler_takeHeapSnapshot None None])
      (postInvoke (Response example_response) None no_fault (example_plugin False True))) =
     [(''profile.heapsnapshot'', HeapStream)]"
  by (simp add: listener_defs example_defs postInvoke_defs helper_defs no_fault_def
      archive_entries_def Let_def)

text \<open>
  C4, amended. With heap snapshotting enabled, \<open>postInvoke\<close> creates the stream
  \<open>heap\<close>, empty and not ended, and posts the \<open>takeHeapSnapshot\<close> request; it does
  not hand the stream to the archive then. Whatever events come before the callback of
  that request, the archive has no entry \<open>profile.heapsnapshot\<close>. When the callback
  runs it appends exactly that one entry, whose source is the stream: the callback
  leaves the stream as it is, and the entry's payload is what the stream holds.
\<close>

theorem heap_stream_appended_by_callback:
  assumes "enabled s" and "invocationInstance s \<noteq> None" and "heapsnapshotEnabled s"
    and "t Profiler_stop = None" and "t HeapProfiler_takeHeapSnapshot = None"
    and "\<not> list_ex (is_reply_to HeapProfiler_takeHeapSnapshot) evs"
  shows "heap (postInvoke (Response r) None t s) = Some \<lparr>written = [], ended = False\<rparr> \<and>
         HeapProfiler_takeHeapSnapshot \<in> set (posted (postInvoke (Response r) None t s)) \<and>
         entries_named (run t evs (postInvoke (Response r) None t s)) ''profile.heapsnapshot'' = [] \<and>
         archive_entries (step t (Reply HeapProfiler_takeHeapSnapshot e x)
             (run t evs (postInvoke (Response r) None t s))) =
           archive_entries (run t evs (postInvoke (Response r) None t s)) @
             [(''profile.heapsnapshot'', HeapStream)] \<and>
         entries_named (step t (Reply HeapProfiler_takeHeapSnapshot e x)
             (run t evs (postInvoke (Response r) None t s))) ''profile.heapsnapshot'' =
           [(''profile.heapsnapshot'', HeapStream)] \<and>
         heap (step t (Reply HeapProfiler_takeHeapSnapshot e x)
             (run t evs (postInvoke (Response r) None t s))) =
           heap (run t evs (postInvoke (Response r) None t s)) \<and>
         entry_payloads (step t (Reply HeapProfiler_takeHeapSnapshot e x)
             (run t evs (postInvoke (Response r) None t s))) ''profile.heapsnapshot'' =
           [payload (run t evs (postInvoke (Response r) None t s)) HeapStream]"
proof -
  let ?s0 = "postInvoke (Response r) None t s"
  let ?x = "run t evs ?s0"
  let ?y = "step t (Reply HeapProfiler_takeHeapSnapshot e x) ?x"
  note st = postInvoke_started [OF assms(1,2,4,5), of r]
  have a: "the_archive ?x \<noteq> None"
    using postInvoke_archive_created(1) [OF assms(1,2), of r t] by (simp add: run_archive)
  have p: "HeapProfiler_takeHeapSnapshot \<in> set (pending ?x)"
    using st(4) [OF assms(3)] assms(6) by (rule run_pending)
  have n: "entries_named ?x ''profile.heapsnapshot'' = []"
    using run_entries_named [OF _ assms(6), of "''profile.heapsnapshot''" t ?s0] st(1)
    by (simp add: entries_named_def)
  have ae: "archive_entries ?y = archive_entries ?x @ [(''profile.heapsnapshot'', HeapStream)]"
    using step_reply_entries [OF p a, of t e x] by (simp del: step.simps)
  have y: "entries_named ?y ''profile.heapsnapshot'' = [(''profile.heapsnapshot'', HeapStream)]"
    using ae n by (simp add: entries_named_def del: step.simps)
  have h: "heap ?y = heap ?x" by (rule step_reply_heap)
  have "entry_payloads ?y ''profile.heapsnapshot'' = [payload ?x HeapStream]"
    unfolding entry_payloads_def y using h by (simp add: payload_def)
  with n ae y h st(5,6) [OF assms(3)] show ?thesis by (simp del: step.simps)
qed

theorem heap_stream_appended_by_callback_witness:
  "\<not> list_ex (is_reply_to HeapProfiler_takeHeapSnapshot) shaped_snapshot \<and>
   heap (postInvoke (Response example_response) None no_fault (example_plugin False True)) =
     Some \<lparr>written = [], ended = False\<rparr> \<and>
   entries_named (run no_fault shaped_snapshot
     (postInvoke (Response example_response) None no_fault (example_plugin False True)))
     ''profile.heapsnapshot'' = [] \<and>
   entries_named (step no_fault (Reply HeapProfiler_takeHeapSnapshot None None)
     (run no_fault shaped_snapshot
       (postInvoke (Response example_response) None no_fault (example_plugin False True))))
     ''profile.heapsnapshot'' = [(''profile.heapsnapshot'', HeapStream)] \<and>
   entry_payloads (step no_fault (Reply HeapProfiler_takeHeapSnapshot None None)
     (run no_fault shaped_snapshot
       (postInvoke (Response example_response) None no_fault (example_plugin False True))))
     ''profile.heapsnapshot'' = [''ab'']"
proof -
  have h: "enabled (example_plugin False True)"
    "invocationInstance (example_plugin False True) \<noteq> None"
    "heapsnapshotEnabled (example_plugin False True)"
    "no_fault Profiler_stop = None" "no_fault HeapProfiler_takeHeapSnapshot = None"
    "\<not> list_ex (is_reply_to HeapProfiler_takeHeapSnapshot) shaped_snapshot"
    by (simp_all add: example_defs no_fault_def shaped_snapshot_def shaped_chunk_def
        shaped_progress_def is_reply_to_def)
  have p: "payload (run no_fault shaped_snapshot
       (postInvoke (Response example_response) None no_fault (example_plugin False True)))
       HeapStream = ''ab''"
    by (simp add: listener_defs example_defs postInvoke_defs helper_defs no_fault_def
        payload_def Let_def)
  show ?thesis
    using heap_stream_appended_by_callback [OF h, of example_response None None] h(6) p
    by (elim conjE) (simp del: run.simps step.simps)
qed

subsection \<open>An expected count of zero\<close>

text \<open>
  C5, as claimed, fails. The plugin that the constructor builds with no capture type
  enabled has \<open>enabled\<close> false: \<open>postInvoke\<close> resolves with \<open>false\<close>, and whatever
  events follow, no request at all is issued, so the zero count is special-cased and
  no upload is invoked. And were the upload sequence run with an expected count of 0
  (\<open>enabled\<close> forced to true), it would post no command and append no entry, and the
  archive could report no entry and could not finish, so that no PUT could settle:
  \<open>finalize\<close> is not called, no PUT is issued and the promise is left pending.
\<close>

theorem zero_count_never_uploads:
  "\<not> enabled (example_plugin False False) \<and>
   requests (run no_fault [ArchiveEntry, ArchiveFinish, PutSettled None]
     (postInvoke (Response example_response) None no_fault (example_plugin False False))) = [] \<and>
   promise (run no_fault [ArchiveEntry, ArchiveFinish, PutSettled None]
     (postInvoke (Response example_response) None no_fault (example_plugin False False))) =
     Resolved VFalse \<and>
   filesCount (postInvoke (Response example_response) None no_fault zero_count_plugin) = 0 \<and>
   pending (postInvoke (Response example_response) None no_fault zero_count_plugin) = [] \<and>
   archive_entries (postInvoke (Response example_response) None no_fault zero_count_plugin) = [] \<and>
   \<not> can_emit (postInvoke (Response example_response) None no_fault zero_count_plugin)
       ArchiveEntry \<and>
   \<not> can_emit (postInvoke (Response example_response) None no_fault zero_count_plugin)
       ArchiveFinish \<and>
   \<not> can_emit (postInvoke (Response example_response) None no_fault zero_count_plugin)
       (PutSettled None) \<and>
   finalized (postInvoke (Response example_response) None no_fault zero_count_plugin) = 0 \<and>
   puts (postInvoke (Response example_response) None no_fault zero_count_plugin) = [] \<and>
   promise (postInvoke (Response example_response) None no_fault zero_count_plugin) = Pending"
  by (simp add: zero_count_plugin_def example_defs postInvoke_defs helper_defs no_fault_def
      archive_entries_def finalized_def puts_def Let_def)

text \<open>
  C5, amended. With no capture type enabled, the plugin that the constructor builds
  (for an invocation instance) has \<open>enabled\<close> false, and \<open>postInvoke\<close> resolves with \<open>false\<close> at once: whatever
  events follow, no request is issued, neither for signing nor for an upload. The zero
  count is special-cased by that guard. The upload sequence itself calls \<open>finalize\<close>
  only from the handler of the archive's \<open>entry\<close> event: were it run on that plugin
  with \<open>enabled\<close> forced to true, the expected count would be 0, and in every sequence
  of events that the session and the archive can produce no entry is appended,
  \<open>finalize\<close> is not called, no PUT is issued and the promise stays pending.
\<close>

theorem zero_count_is_guarded:
  assumes "\<not> profilerEnabled (ProfilerPlugin opts (Some i) envP envH host)"
    and "\<not> heapsnapshotEnabled (ProfilerPlugin opts (Some i) envP envH host)"
    and "feasible t evs (postInvoke (Response r) None t
           ((ProfilerPlugin opts (Some i) envP envH host)\<lparr>enabled := True\<rparr>))"
  shows "\<not> enabled (ProfilerPlugin opts (Some i) envP envH host) \<and>
         requests (run t evs'
           (postInvoke sg arch t (ProfilerPlugin opts (Some i) envP envH host))) = [] \<and>
         promise (run t evs'
           (postInvoke sg arch t (ProfilerPlugin opts (Some i) envP envH host))) = Resolved VFalse \<and>
         filesCount (postInvoke (Response r) None t
           ((ProfilerPlugin opts (Some i) envP envH host)\<lparr>enabled := True\<rparr>)) = 0 \<and>
         archive_entries (run t evs (postInvoke (Response r) None t
           ((ProfilerPlugin opts (Some i) envP envH host)\<lparr>enabled := True\<rparr>))) = [] \<and>
         finalized (run t evs (postInvoke (Response r) None t
           ((ProfilerPlugin opts (Some i) envP envH host)\<lparr>enabled := True\<rparr>))) = 0 \<and>
         puts (run t evs (postInvoke (Response r) None t
           ((ProfilerPlugin opts (Some i) envP envH host)\<lparr>enabled := True\<rparr>))) = [] \<and>
         promise (run t evs (postInvoke (Response r) None t
           ((ProfilerPlugin opts (Some i) envP envH host)\<lparr>enabled := True\<rparr>))) = Pending"
proof -
  let ?p = "ProfilerPlugin opts (Some i) envP envH host"
  let ?z = "postInvoke (Response r) None t (?p\<lparr>enabled := True\<rparr>)"
  have en: "enabled ?p = (profilerEnabled ?p \<or> heapsnapshotEnabled ?p)"
    and fresh: "requests ?p = []" "the_archive ?p = None" "awaitingPut ?p = 0"
      "invocationInstance ?p = Some i" "pending ?p = []"
    by (simp_all add: ProfilerPlugin_def Let_def)
  have off: "\<not> enabled ?p" using en assms(1,2) by simp
  have ret: "postInvoke sg arch t ?p = ?p\<lparr>promise := Resolved VFalse\<rparr>"
    using off by (simp add: postInvoke_def)
  have q: "quiet (postInvoke sg arch t ?p)" using fresh unfolding ret by (simp add: quiet_def)
  have a: "requests (run t evs' (postInvoke sg arch t ?p)) = []"
    "promise (run t evs' (postInvoke sg arch t ?p)) = Resolved VFalse"
    using run_quiet [OF q, of t evs'] fresh(1) unfolding ret by simp_all
  have pre: "enabled (?p\<lparr>enabled := True\<rparr>)" "invocationInstance (?p\<lparr>enabled := True\<rparr>) \<noteq> None"
    "\<not> profilerEnabled (?p\<lparr>enabled := True\<rparr>)" "\<not> heapsnapshotEnabled (?p\<lparr>enabled := True\<rparr>)"
    "captures_pending (?p\<lparr>enabled := True\<rparr>) = 0"
    using assms(1,2) fresh by (simp_all add: captures_pending_def)
  note z = postInvoke_idle [OF pre, of r t]
  have ri: "idle (run t evs ?z)" "requests (run t evs ?z) = requests ?z"
    using run_idle [OF z(1) assms(3)] by simp_all
  have pz: "puts ?z = []" using z(2) fresh(1) by (simp add: puts_def)
  have b: "archive_entries (run t evs ?z) = []" "finalized (run t evs ?z) = 0"
    "promise (run t evs ?z) = Pending"
    using ri(1) by (auto simp: idle_def archive_entries_def finalized_def split: option.splits)
  have c: "puts (run t evs ?z) = []" using ri(2) pz by (simp add: puts_def)
  show ?thesis using off a z(3) b c by simp
qed

theorem zero_count_is_guarded_witness:
  "example_plugin False False =
     ProfilerPlugin (example_opts False False) (Some example_invocation) None None ''signer.example'' \<and>
   feasible no_fault [ArchiveData ''PK'', shaped_chunk ''a'']
     (postInvoke (Response example_response) None no_fault zero_count_plugin) \<and>
   \<not> enabled (example_plugin False False) \<and>
   requests (run no_fault [ArchiveEntry, ArchiveFinish, PutSettled None]
     (postInvoke (Response example_response) None no_fault (example_plugin False False))) = [] \<and>
   promise (run no_fault [ArchiveEntry, ArchiveFinish, PutSettled None]
     (postInvoke (Response example_response) None no_fault (example_plugin False False))) =
     Resolved VFalse \<and>
   finalized (run no_fault [ArchiveData ''PK'', shaped_chunk ''a'']
     (postInvoke (Response example_response) None no_fault zero_count_plugin)) = 0 \<and>
   puts (run no_fault [ArchiveData ''PK'', shaped_chunk ''a'']
     (postInvoke (Response example_response) None no_fault zero_count_plugin)) = [] \<and>
   promise (run no_fault [ArchiveData ''PK'', shaped_chunk ''a'']
     (postInvoke (Response example_response) None no_fault zero_count_plugin)) = Pending"
proof -
  have e: "example_plugin False False =
     ProfilerPlugin (example_opts False False) (Some example_invocation) None None ''signer.example''"
    by (simp add: example_plugin_def)
  have h: "\<not> profilerEnabled (ProfilerPlugin (example_opts False False) (Some example_invocation)
        None None ''signer.example'')"
    "\<not> heapsnapshotEnabled (ProfilerPlugin (example_opts False False) (Some example_invocation)
        None None ''signer.example'')"
    by (simp_all add: example_defs)
  have f: "feasible no_fault [ArchiveData ''PK'', shaped_chunk ''a'']
     (postInvoke (Response example_response) None no_fault
        ((ProfilerPlugin (example_opts False False) (Some example_invocation)
        None None ''signer.example'')\<lparr>enabled := True\<rparr>))"
    by (simp add: listener_defs example_defs postInvoke_defs helper_defs no_fault_def Let_def)
  show ?thesis
    using zero_count_is_guarded [OF h f, of "[ArchiveEntry, ArchiveFinish, PutSettled None]"
        "Response example_response" None] f
    unfolding zero_count_plugin_def e
    by (elim conjE) (simp del: run.simps step.simps feasible.simps)
qed

subsection \<open>postReport\<close>

text \<open>
  C6. \<open>postReport\<close> disconnects the session unconditionally and never raises: in
  every state the hook returns, the session is not connected afterwards, and a second
  call returns as well and changes nothing. On a session that is not connected (never
  connected, as in a plugin just built, or disconnected already) the call changes
  nothing at all. No error arises that the hook would have to swallow.
\<close>

theorem postReport_disconnects_quietly:
  "(\<exists>s'. postReport s = Inr s' \<and> \<not> connected s' \<and> postReport s' = Inr s' \<and>
         s' = (if connected s then s\<lparr>connected := False\<rparr> else s)) \<and>
   postReport (ProfilerPlugin opts inst envP envH host) =
     Inr (ProfilerPlugin opts inst envP envH host)"
  by (simp add: postReport_def inspector_disconnect_def ProfilerPlugin_def Let_def)

subsection \<open>What the heap listeners write\<close>

text \<open>
  C7. The claim: when the snapshot emits the chunks \<open>a\<close> and \<open>b\<close> and then reports
  that it has finished, the payload of the entry \<open>profile.heapsnapshot\<close> is \<open>ab\<close>,
  and the stream is closed exactly on the finished signal.
  The code does so when the listeners are called with values of the shape that their
  parameters destructure, an object with the property \<open>chunk\<close> and an array whose third
  element is \<open>finished\<close>: the payload is \<open>ab\<close>, and the stream ends on the finished
  signal and not on a progress report that is not finished. But the session the
  constructor creates calls a listener with the notification as a whole, an object
  with the properties \<open>method\<close> and \<open>params\<close>. On it the chunk listener finds no
  \<open>chunk\<close> and writes nothing, and the progress listener raises a TypeError and never
  ends the stream: the payload is empty, and the archive cannot report the entry.
\<close>

theorem session_chunks_never_reach_the_stream:
  "heap (run no_fault (session_snapshot @ [Reply HeapProfiler_takeHeapSnapshot None None])
      (postInvoke (Response example_response) None no_fault (example_plugin False True))) =
     Some \<lparr>written = [], ended = False\<rparr> \<and>
   entry_payloads
     (run no_fault (session_snapshot @ [Reply HeapProfiler_takeHeapSnapshot None None])
        (postInvoke (Response example_response) None no_fault (example_plugin False True)))
     ''profile.heapsnapshot'' = [[]] \<and>
   escaped (run no_fault (session_snapshot @ [Reply HeapProfiler_takeHeapSnapshot None None])
      (postInvoke (Response example_response) None no_fault (example_plugin False True))) =
     [''TypeError''] \<and>
   \<not> can_emit
      (run no_fault (session_snapshot @ [Reply HeapProfiler_takeHeapSnapshot None None])
         (postInvoke (Response example_response) None no_fault (example_plugin False True)))
      ArchiveEntry \<and>
   entry_payloads
     (run no_fault (shaped_snapshot @ [Reply HeapProfiler_takeHeapSnapshot None None])
        (postInvoke (Response example_response) None no_fault (example_plugin False True)))
     ''profile.heapsnapshot'' = [''ab''] \<and>
   heap (run no_fault (shaped_snapshot @ [Reply HeapProfiler_takeHeapSnapshot None None])
      (postInvoke (Response example_response) None no_fault (example_plugin False True))) =
     Some \<lparr>written = [''a'', ''b''], ended = True\<rparr> \<and>
   heap (run no_fault [shaped_chunk ''a'', shaped_progress 1 2 False, shaped_chunk ''b'']
      (postInvoke (Response example_response) None no_fault (example_plugin False True))) =
     Some \<lparr>written = [''a'', ''b''], ended = False\<rparr>"
  by (simp add: listener_defs example_defs postInvoke_defs helper_defs no_fault_def
      archive_entries_def entries_named_def entry_payloads_def payload_def heap_ended_def
      source_complete_def Let_def)

end
